theory Spec2Isabelle
  imports Main
begin

section \<open>The server core of cube.js (CubejsServerCore), embedded from its TypeScript source\<close>

text \<open>
  The class keeps mutable fields and closures; every method below takes the part of the
  object's state it reads or writes and returns that part updated. What the logger
  receives is appended to a list of events, in call order.
\<close>

subsection \<open>JavaScript values and truthiness\<close>

text \<open>
  The fields of a background context are typed \<open>any\<close>. The tests \<open>if (ctx.authInfo)\<close>
  of the source are truthiness tests: \<open>undefined\<close>, \<open>null\<close>, \<open>false\<close>, \<open>0\<close> and the empty
  string are falsy, every object is truthy. An absent property reads as \<open>undefined\<close>.
  Numbers are modelled as integers.
\<close>

datatype jsval =
    JUndefined
  | JNull
  | JBool bool
  | JNum int
  | JStr string
  | JObj "(string \<times> jsval) list"

fun truthy :: "jsval \<Rightarrow> bool" where
  "truthy JUndefined = False"
| "truthy JNull = False"
| "truthy (JBool b) = b"
| "truthy (JNum n) = (n \<noteq> 0)"
| "truthy (JStr s) = (s \<noteq> [])"
| "truthy (JObj ps) = True"

text \<open>A diagnostic as the logger receives it: the event name and its parameters.\<close>

type_synonym log_event = "string \<times> (string \<times> string) list"

subsection \<open>Background contexts: \<open>migrateBackgroundContext\<close>\<close>

text \<open>
  A \<open>UserBackgroundContext\<close>: the legacy field \<open>authInfo\<close>, the current field
  \<open>securityContext\<close>, and whatever other properties the object carries (the spread
  \<open>...ctx\<close> copies them all). The argument of the method is such an object or \<open>null\<close>.
\<close>

record userBackgroundContext =
  authInfo :: jsval
  securityContext :: jsval
  others :: "(string \<times> jsval) list"

text \<open>The fields of the instance that the method touches.\<close>

record bg_state =
  warningBackgroundContextShow :: bool
  bg_logged :: "log_event list"

definition auth_info_deprecation :: log_event where
  "auth_info_deprecation =
     (''auth_info_deprecation'',
      [(''warning'',
        ''authInfo was renamed to securityContext, please migrate: '' @
        ''https://github.com/cube-js/cube.js/blob/master/DEPRECATION.md#checkauthmiddleware'')])"

text \<open>
  The field initialiser of the class: \<open>warningBackgroundContextShow: boolean = false\<close>.
\<close>

definition bg_initial :: bg_state where
  "bg_initial = \<lparr>warningBackgroundContextShow = False, bg_logged = []\<rparr>"

text \<open>
  \<open>result\<close> starts as \<open>null\<close> and is assigned in two branches only; the second branch
  does not test \<open>securityContext\<close>. The logger is called under the flag, which is then
  cleared.
\<close>

definition migrateBackgroundContext ::
    "userBackgroundContext option \<Rightarrow> bg_state \<Rightarrow> userBackgroundContext option \<times> bg_state" where
  "migrateBackgroundContext ctx st =
     (case ctx of
        None \<Rightarrow> (None, st)
      | Some c \<Rightarrow>
          if truthy (securityContext c) \<and> \<not> truthy (authInfo c) then
            (Some (c\<lparr>authInfo := securityContext c\<rparr>), st)
          else if truthy (authInfo c) then
            (Some (c\<lparr>securityContext := authInfo c\<rparr>),
             if warningBackgroundContextShow st then
               st\<lparr>bg_logged := bg_logged st @ [auth_info_deprecation],
                  warningBackgroundContextShow := False\<rparr>
             else st)
          else (None, st))"

text \<open>A sequence of calls in one process, the instance state threaded through.\<close>

fun migrateAll :: "userBackgroundContext option list \<Rightarrow> bg_state \<Rightarrow> bg_state" where
  "migrateAll [] st = st"
| "migrateAll (c # cs) st = migrateAll cs (snd (migrateBackgroundContext c st))"

subsection \<open>Driver acquisition: the closures \<open>getDriver\<close> and \<open>getExternalDriverFactory\<close>\<close>

text \<open>
  \<open>getOrchestratorApi\<close> creates, for one orchestrator, the slot table
  \<open>const driverPromise: Record<string, Promise<BaseDriver>> = {}\<close> and the single slot
  \<open>externalPreAggregationsDriverPromise\<close>, and two closures over them whose bodies differ
  in the slot and the factory only.

  The slot table is an object literal: besides its own properties (a data-source name
  that was assigned a promise or \<open>null\<close>) it inherits those of \<open>Object.prototype\<close>, so a
  read \<open>driverPromise[dataSource]\<close> of a name such as \<open>constructor\<close> that was never assigned
  gives the inherited function, which is truthy. An own property shadows an inherited
  one. (An assignment to \<open>__proto__\<close> would replace the prototype instead of creating a
  property; no assignment to an inherited name is ever reached, see
  \<open>inherited_names_untouched\<close> below, so this plays no part.)

  JavaScript runs one task at a time: an async body runs without interruption up to its
  next \<open>await\<close>, where it is parked until the awaited call has settled. The model is a
  step function over two kinds of event: a caller invokes a closure, or a parked body is
  resumed. An awaited call of a collaborator (the driver factory, \<open>testConnection\<close>,
  \<open>release\<close>) either throws before returning, or returns a promise that rejects, or
  gives a value (directly or through a promise that fulfils).
\<close>

datatype error = Error string | TypeError

datatype 'a outcome = Throws error | Rejects error | Resolves 'a

text \<open>\<open>setLogger\<close> is optional on a driver and is called without \<open>await\<close>.\<close>

datatype setLogger_method = Absent | Returns | Raises error

record baseDriver =
  handle :: nat
  setLogger :: setLogger_method
  testConnection :: "unit outcome"
  release :: "unit outcome"

datatype promise = Pending | Fulfilled baseDriver | Rejected error

datatype slot = DataSource string | External

text \<open>The names of the properties of \<open>Object.prototype\<close> (ECMAScript, with Annex B).\<close>

definition object_prototype :: "string list" where
  "object_prototype =
     [''constructor'', ''__defineGetter__'', ''__defineSetter__'', ''hasOwnProperty'',
      ''__lookupGetter__'', ''__lookupSetter__'', ''isPrototypeOf'', ''propertyIsEnumerable'',
      ''toString'', ''valueOf'', ''__proto__'', ''toLocaleString'']"

definition inherited :: "slot \<Rightarrow> bool" where
  "inherited k = (case k of DataSource ds \<Rightarrow> ds \<in> set object_prototype | External \<Rightarrow> False)"

text \<open>
  What a read of a slot gives: \<open>null\<close> or \<open>undefined\<close> (both falsy), a promise of the
  broker, or the inherited property of that name.
\<close>

datatype slot_value = Null | Promise nat | Inherited string

text \<open>
  Where an async body is parked, with what the awaited promise settles to (\<open>Inl\<close> a
  rejection), and the variables of the body that are live there.
\<close>

datatype await_point =
    AwaitFactory "error + baseDriver option"
  | AwaitTestConnection baseDriver "error + unit"
  | AwaitRelease error "error + unit"

text \<open>Outbound calls, tagged with the attempt (the promise of the async body) making them.\<close>

datatype call = FactoryCall nat | SetLoggerCall nat | TestConnectionCall nat | ReleaseCall nat

text \<open>
  \<open>driverPromise\<close> holds the own properties of the slot table, each a promise or \<open>null\<close>
  (\<open>None\<close>); \<open>externalPreAggregationsDriverPromise\<close> is a variable, a promise or \<open>null\<close>.
\<close>

record broker =
  driverPromise :: "string \<rightharpoonup> nat option"
  externalPreAggregationsDriverPromise :: "nat option"
  promises :: "promise list"
  parked :: "nat \<rightharpoonup> slot \<times> await_point"
  calls :: "call list"

definition broker_initial :: broker where
  "broker_initial =
     \<lparr>driverPromise = Map.empty, externalPreAggregationsDriverPromise = None,
      promises = [], parked = Map.empty, calls = []\<rparr>"

definition slot_read :: "slot \<Rightarrow> broker \<Rightarrow> slot_value" where
  "slot_read k st =
     (case k of
        DataSource ds \<Rightarrow>
          (case driverPromise st ds of
             Some (Some p) \<Rightarrow> Promise p
           | Some None \<Rightarrow> Null
           | None \<Rightarrow> if ds \<in> set object_prototype then Inherited ds else Null)
      | External \<Rightarrow>
          (case externalPreAggregationsDriverPromise st of
             Some p \<Rightarrow> Promise p
           | None \<Rightarrow> Null))"

definition slot_set :: "slot \<Rightarrow> nat option \<Rightarrow> broker \<Rightarrow> broker" where
  "slot_set k v st =
     (case k of DataSource ds \<Rightarrow> st\<lparr>driverPromise := (driverPromise st)(ds \<mapsto> v)\<rparr>
      | External \<Rightarrow> st\<lparr>externalPreAggregationsDriverPromise := v\<rparr>)"

definition settle :: "nat \<Rightarrow> promise \<Rightarrow> broker \<Rightarrow> broker" where
  "settle p v st = st\<lparr>promises := (promises st)[p := v]\<rparr>"

definition park :: "nat \<Rightarrow> slot \<Rightarrow> await_point \<Rightarrow> broker \<Rightarrow> broker" where
  "park p k w st = st\<lparr>parked := (parked st)(p \<mapsto> (k, w))\<rparr>"

definition called :: "call \<Rightarrow> broker \<Rightarrow> broker" where
  "called c st = st\<lparr>calls := calls st @ [c]\<rparr>"

text \<open>
  The \<open>catch (e)\<close> block: the slot is cleared first; then, if \<open>driver\<close> was assigned,
  \<open>await driver.release()\<close>, whose own failure leaves the block in place of \<open>e\<close>; then
  \<open>throw e\<close>.
\<close>

definition catch_block :: "slot \<Rightarrow> nat \<Rightarrow> baseDriver option \<Rightarrow> error \<Rightarrow> broker \<Rightarrow> broker" where
  "catch_block k p driver e st =
     (let st1 = slot_set k None st in
      case driver of
        None \<Rightarrow> settle p (Rejected e) st1
      | Some d \<Rightarrow>
          (let st2 = called (ReleaseCall p) st1 in
           case release d of
             Throws r \<Rightarrow> settle p (Rejected r) st2
           | Rejects r \<Rightarrow> park p k (AwaitRelease e (Inl r)) st2
           | Resolves u \<Rightarrow> park p k (AwaitRelease e (Inr ())) st2))"

text \<open>
  The \<open>try\<close> block from the point where the factory's value is assigned to \<open>driver\<close>.
  The default factory may return \<open>null\<close>, on which \<open>driver.setLogger\<close> raises a TypeError.
\<close>

definition after_factory :: "slot \<Rightarrow> nat \<Rightarrow> baseDriver option \<Rightarrow> broker \<Rightarrow> broker" where
  "after_factory k p v st =
     (case v of
        None \<Rightarrow> catch_block k p None TypeError st
      | Some d \<Rightarrow>
          (case setLogger d of
             Raises e \<Rightarrow> catch_block k p (Some d) e (called (SetLoggerCall p) st)
           | m \<Rightarrow>
               (let st1 = (if m = Absent then st else called (SetLoggerCall p) st);
                    st2 = called (TestConnectionCall p) st1
                in case testConnection d of
                     Throws e \<Rightarrow> catch_block k p (Some d) e st2
                   | Rejects e \<Rightarrow> park p k (AwaitTestConnection d (Inl e)) st2
                   | Resolves u \<Rightarrow> park p k (AwaitTestConnection d (Inr ())) st2)))"

text \<open>
  The async body from its start to its first \<open>await\<close>: the factory is called at once. If
  it throws, the \<open>catch\<close> block runs before the body has returned its promise.
\<close>

definition start_attempt :: "slot \<Rightarrow> nat \<Rightarrow> baseDriver option outcome \<Rightarrow> broker \<Rightarrow> broker" where
  "start_attempt k p f st =
     (let st1 = called (FactoryCall p) st in
      case f of
        Throws e \<Rightarrow> catch_block k p None e st1
      | Rejects e \<Rightarrow> park p k (AwaitFactory (Inl e)) st1
      | Resolves v \<Rightarrow> park p k (AwaitFactory (Inr v)) st1)"

text \<open>
  The closure: a truthy slot value is returned as it is; otherwise the async body is
  started and the promise it returns is \<^emph>\<open>then\<close> assigned to the slot
  (\<open>return slot = (async () => {...})()\<close>). The argument \<open>f\<close> is how the factory behaves if
  this call invokes it. The result is what the caller waits on: a promise of the broker,
  or the inherited value.
\<close>

definition acquire ::
    "slot \<Rightarrow> baseDriver option outcome \<Rightarrow> broker \<Rightarrow> slot_value \<times> broker" where
  "acquire k f st =
     (case slot_read k st of
        Promise p \<Rightarrow> (Promise p, st)
      | Inherited name \<Rightarrow> (Inherited name, st)
      | Null \<Rightarrow>
          (let p = length (promises st);
               st1 = start_attempt k p f (st\<lparr>promises := promises st @ [Pending]\<rparr>)
           in (Promise p, slot_set k (Some p) st1)))"

definition getDriver ::
    "string \<Rightarrow> baseDriver option outcome \<Rightarrow> broker \<Rightarrow> slot_value \<times> broker" where
  "getDriver dataSource = acquire (DataSource dataSource)"

definition getExternalDriverFactory ::
    "baseDriver option outcome \<Rightarrow> broker \<Rightarrow> slot_value \<times> broker" where
  "getExternalDriverFactory = acquire External"

text \<open>A parked body continues after its \<open>await\<close>.\<close>

definition resume :: "nat \<Rightarrow> broker \<Rightarrow> broker" where
  "resume p st =
     (case parked st p of
        None \<Rightarrow> st
      | Some (k, w) \<Rightarrow>
          (let st1 = st\<lparr>parked := (parked st)(p := None)\<rparr> in
           case w of
             AwaitFactory (Inl e) \<Rightarrow> catch_block k p None e st1
           | AwaitFactory (Inr v) \<Rightarrow> after_factory k p v st1
           | AwaitTestConnection d (Inl e) \<Rightarrow> catch_block k p (Some d) e st1
           | AwaitTestConnection d (Inr u) \<Rightarrow> settle p (Fulfilled d) st1
           | AwaitRelease e (Inl r) \<Rightarrow> settle p (Rejected r) st1
           | AwaitRelease e (Inr u) \<Rightarrow> settle p (Rejected e) st1))"

datatype event = Call slot "baseDriver option outcome" | Resume nat

fun step :: "event \<Rightarrow> broker \<Rightarrow> broker" where
  "step (Call k f) st = snd (acquire k f st)"
| "step (Resume p) st = resume p st"

fun run :: "event list \<Rightarrow> broker \<Rightarrow> broker" where
  "run [] st = st"
| "run (ev # evs) st = run evs (step ev st)"


text \<open>The outcome a caller holding promise \<open>p\<close> observes in a state.\<close>

definition outcome_of :: "nat \<Rightarrow> broker \<Rightarrow> promise" where
  "outcome_of p st = (if p < length (promises st) then promises st ! p else Pending)"

subsection \<open>Invariants of the acquisition state\<close>

text \<open>
  What holds of one attempt \<open>p\<close> in every reachable state: the factory was invoked once
  for it; \<open>testConnection\<close> was not yet called while the body waits for the factory, was
  called once while it waits for \<open>testConnection\<close> and when the promise is fulfilled, and
  never more than once; a parked body's promise is pending. A promise not yet created
  has no body and no call.
\<close>

definition phase_ok :: "(slot \<times> await_point) option \<Rightarrow> promise \<Rightarrow> nat \<Rightarrow> bool" where
  "phase_ok w pr n =
     (case w of
        Some (k, aw) \<Rightarrow>
          pr = Pending \<and>
          (case aw of
             AwaitFactory x \<Rightarrow> n = 0
           | AwaitTestConnection d x \<Rightarrow> n = 1
           | AwaitRelease e x \<Rightarrow> n \<le> 1)
      | None \<Rightarrow> (case pr of Fulfilled d \<Rightarrow> n = 1 | _ \<Rightarrow> n \<le> 1))"

definition attempt_ok :: "nat \<Rightarrow> broker \<Rightarrow> bool" where
  "attempt_ok p st =
     (if p < length (promises st) then
        count_list (calls st) (FactoryCall p) = 1 \<and>
        phase_ok (parked st p) (promises st ! p) (count_list (calls st) (TestConnectionCall p))
      else parked st p = None \<and>
           count_list (calls st) (FactoryCall p) = 0 \<and>
           count_list (calls st) (TestConnectionCall p) = 0)"



text \<open>Every non-null slot holds a promise that exists.\<close>

definition slots_ok :: "broker \<Rightarrow> bool" where
  "slots_ok st = (\<forall>k p. slot_read k st = Promise p \<longrightarrow> p < length (promises st))"

text \<open>
  No inherited name has an own property, and no async body runs for an inherited name.
\<close>

definition untouched :: "broker \<Rightarrow> bool" where
  "untouched st =
     ((\<forall>ds \<in> set object_prototype. driverPromise st ds = None) \<and>
      (\<forall>p k w. parked st p = Some (k, w) \<longrightarrow> \<not> inherited k))"

text \<open>
  The error with which the \<open>try\<close> block fails once the factory has given driver \<open>d\<close>, if
  it fails; and the error the callers observe after the \<open>catch\<close> block, entered with \<open>e\<close>,
  has released \<open>d\<close>.
\<close>

definition failure_of :: "baseDriver \<Rightarrow> error option" where
  "failure_of d =
     (case setLogger d of
        Raises e \<Rightarrow> Some e
      | m \<Rightarrow> (case testConnection d of
                 Throws e \<Rightarrow> Some e
               | Rejects e \<Rightarrow> Some e
               | Resolves u \<Rightarrow> None))"

definition observed_failure :: "error \<Rightarrow> baseDriver \<Rightarrow> error" where
  "observed_failure e d =
     (case release d of Throws r \<Rightarrow> r | Rejects r \<Rightarrow> r | Resolves u \<Rightarrow> e)"

subsection \<open>The compiled-artifact cache and the orchestrator registry\<close>

text \<open>
  Modelled from the spec: the class \<open>LRUCache\<close> that the constructor instantiates is not
  among the sources. The specification's cache: a fixed maximum entry count; insertion
  beyond capacity evicts the least recently used entry; recency is updated on every
  \<open>get\<close>, and the age is refreshed on access too when keep-alive on read is enabled; an
  optional max-age, an entry older than which is a miss on \<open>get\<close> even if not yet swept;
  a sweep (\<open>prune\<close>) that removes the expired entries; \<open>reset\<close> drops everything.
  Entries are kept most recently used first, each with the time it was stored or last
  refreshed. A max-age of \<open>0\<close> is no max-age, as for the falsy test that guards the sweep
  timer in the constructor.
\<close>

record 'v lru =
  lru_max :: nat
  lru_maxAge :: "nat option"
  lru_updateAgeOnGet :: bool
  lru_entries :: "(string \<times> 'v \<times> nat) list"

text \<open>Modelled from the spec: an entry is expired when it is older than the max-age.\<close>

definition lru_expired :: "'v lru \<Rightarrow> nat \<Rightarrow> nat \<Rightarrow> bool" where
  "lru_expired c now stamp =
     (case lru_maxAge c of None \<Rightarrow> False | Some T \<Rightarrow> 0 < T \<and> stamp + T < now)"

text \<open>
  Modelled from the spec: \<open>LRUCache.get\<close>. A miss for an absent or expired entry; a hit
  moves the entry to the front and refreshes its age if configured.
\<close>

definition lru_get :: "nat \<Rightarrow> string \<Rightarrow> 'v lru \<Rightarrow> 'v option \<times> 'v lru" where
  "lru_get now k c =
     (case map_of (lru_entries c) k of
        None \<Rightarrow> (None, c)
      | Some (v, stamp) \<Rightarrow>
          if lru_expired c now stamp then (None, c)
          else (Some v,
                c\<lparr>lru_entries :=
                    (k, v, if lru_updateAgeOnGet c then now else stamp)
                      # filter (\<lambda>e. fst e \<noteq> k) (lru_entries c)\<rparr>))"

text \<open>
  Modelled from the spec: \<open>LRUCache.set\<close>. The pair replaces any entry of the key and
  becomes the most recently used; beyond capacity the least recently used entry goes.
\<close>

definition lru_set :: "nat \<Rightarrow> string \<Rightarrow> 'v \<Rightarrow> 'v lru \<Rightarrow> 'v lru" where
  "lru_set now k v c =
     (let es = (k, v, now) # filter (\<lambda>e. fst e \<noteq> k) (lru_entries c)
      in c\<lparr>lru_entries := (if lru_max c < length es then butlast es else es)\<rparr>)"

text \<open>Modelled from the spec: \<open>LRUCache.prune\<close>, the sweep of expired entries.\<close>

definition lru_prune :: "nat \<Rightarrow> 'v lru \<Rightarrow> 'v lru" where
  "lru_prune now c =
     c\<lparr>lru_entries := filter (\<lambda>e. \<not> lru_expired c now (snd (snd e))) (lru_entries c)\<rparr>"

text \<open>Modelled from the spec: \<open>LRUCache.reset\<close> (the specification's \<open>invalidateAll\<close>).\<close>

definition lru_reset :: "'v lru \<Rightarrow> 'v lru" where
  "lru_reset c = c\<lparr>lru_entries := []\<rparr>"

text \<open>Sweeps at the given times, one after the other.\<close>

fun lru_prunes :: "nat list \<Rightarrow> 'v lru \<Rightarrow> 'v lru" where
  "lru_prunes [] c = c"
| "lru_prunes (t # ts) c = lru_prunes ts (lru_prune t c)"

text \<open>
  The options the constructor reads for the cache. \<open>compilerCacheSize\<close> and
  \<open>maxCompilerCacheKeepAlive\<close> are optional numbers (milliseconds for the latter),
  \<open>updateCompilerCacheKeepAlive\<close> an optional boolean, \<open>schemaVersion\<close> an optional
  function of the context (only its presence matters here).
\<close>

record cache_options =
  compilerCacheSize :: "nat option"
  maxCompilerCacheKeepAlive :: "nat option"
  updateCompilerCacheKeepAlive :: "bool option"
  schemaVersion :: bool

text \<open>
  \<open>new LRUCache({max: compilerCacheSize || 250, maxAge: maxCompilerCacheKeepAlive,
  updateAgeOnGet: updateCompilerCacheKeepAlive})\<close>: \<open>||\<close> takes the right operand for an
  absent size and for \<open>0\<close>.
\<close>

definition new_compilerCache :: "cache_options \<Rightarrow> 'v lru" where
  "new_compilerCache opts =
     \<lparr>lru_max = (case compilerCacheSize opts of
                   None \<Rightarrow> 250
                 | Some n \<Rightarrow> if n \<noteq> 0 then n else 250),
      lru_maxAge = maxCompilerCacheKeepAlive opts,
      lru_updateAgeOnGet = (updateCompilerCacheKeepAlive opts = Some True),
      lru_entries = []\<rparr>"

text \<open>
  Modelled from the spec: the class \<open>OrchestratorStorage\<close> is not among the sources. The
  specification's registry has \<open>has\<close>, \<open>get\<close>, \<open>set\<close>, \<open>delete\<close> and \<open>clear\<close> over tenant keys:
  a finite map from keys to instances (\<open>has k\<close> is \<open>m k \<noteq> None\<close>, \<open>get k\<close> is \<open>m k\<close>, \<open>set k v\<close>
  is \<open>m(k \<mapsto> v)\<close>, \<open>clear\<close> is the empty map).
\<close>

type_synonym orchestratorStorage = "string \<rightharpoonup> nat"

text \<open>
  The fields of the instance that \<open>getCompilerApi\<close> and \<open>getOrchestratorApi\<close> use.
  \<open>CompilerApi\<close> and \<open>OrchestratorApi\<close> objects are identified by the order of their
  creation (\<open>nextObject\<close>); \<open>compilerApiSchemaVersion\<close> is the field \<open>schemaVersion\<close> of each
  \<open>CompilerApi\<close> object, a closure over the context of the last lookup.
  \<open>maxCompilerCacheKeep\<close> is the handle of the sweep timer, here its period.
\<close>

record 'c cache_core =
  options :: cache_options
  contextToAppId :: "'c \<Rightarrow> string"
  contextToOrchestratorId :: "'c \<Rightarrow> string"
  compilerCache :: "nat lru"
  maxCompilerCacheKeep :: "nat option"
  orchestratorStorage :: orchestratorStorage
  compilerApiSchemaVersion :: "nat \<rightharpoonup> 'c"
  nextObject :: nat

text \<open>
  The constructor, as far as these fields go: the cache, and
  \<open>if (maxCompilerCacheKeepAlive) setInterval(() => compilerCache.prune(), maxCompilerCacheKeepAlive)\<close>.
\<close>

definition new_cache_core :: "cache_options \<Rightarrow> ('c \<Rightarrow> string) \<Rightarrow> ('c \<Rightarrow> string) \<Rightarrow> 'c cache_core" where
  "new_cache_core opts appId orchestratorId =
     \<lparr>options = opts,
      contextToAppId = appId,
      contextToOrchestratorId = orchestratorId,
      compilerCache = new_compilerCache opts,
      maxCompilerCacheKeep =
        (case maxCompilerCacheKeepAlive opts of
           None \<Rightarrow> None
         | Some T \<Rightarrow> if T \<noteq> 0 then Some T else None),
      orchestratorStorage = Map.empty,
      compilerApiSchemaVersion = Map.empty,
      nextObject = 0\<rparr>"

text \<open>The callback of the sweep timer, when the timer fires at time \<open>now\<close>.\<close>

definition sweep_tick :: "nat \<Rightarrow> 'c cache_core \<Rightarrow> 'c cache_core" where
  "sweep_tick now st =
     (case maxCompilerCacheKeep st of
        None \<Rightarrow> st
      | Some period \<Rightarrow> st\<lparr>compilerCache := lru_prune now (compilerCache st)\<rparr>)"

text \<open>
  \<open>getCompilerApi\<close> at time \<open>now\<close>: the cache is asked first; on a miss a \<open>CompilerApi\<close> is
  created and stored; in both cases the object's \<open>schemaVersion\<close> is reassigned.
\<close>

definition getCompilerApi :: "nat \<Rightarrow> 'c \<Rightarrow> 'c cache_core \<Rightarrow> nat \<times> 'c cache_core" where
  "getCompilerApi now context st =
     (let appId = contextToAppId st context;
          (found, cache1) = lru_get now appId (compilerCache st);
          currentSchemaVersion = (if schemaVersion (options st) then Some context else None)
      in case found of
           Some compilerApi \<Rightarrow>
             (compilerApi,
              st\<lparr>compilerCache := cache1,
                 compilerApiSchemaVersion :=
                   (compilerApiSchemaVersion st)(compilerApi := currentSchemaVersion)\<rparr>)
         | None \<Rightarrow>
             (let compilerApi = nextObject st
              in (compilerApi,
                  st\<lparr>compilerCache := lru_set now appId compilerApi cache1,
                     compilerApiSchemaVersion :=
                       (compilerApiSchemaVersion st)(compilerApi := currentSchemaVersion),
                     nextObject := Suc (nextObject st)\<rparr>)))"

text \<open>
  \<open>getOrchestratorApi\<close>: the registry is asked first; otherwise an \<open>OrchestratorApi\<close> is
  created (with its own, empty, acquisition slots) and registered.
\<close>

definition getOrchestratorApi :: "'c \<Rightarrow> 'c cache_core \<Rightarrow> nat \<times> 'c cache_core" where
  "getOrchestratorApi context st =
     (let orchestratorId = contextToOrchestratorId st context
      in case orchestratorStorage st orchestratorId of
           Some orchestratorApi \<Rightarrow> (orchestratorApi, st)
         | None \<Rightarrow>
             (let orchestratorApi = nextObject st
              in (orchestratorApi,
                  st\<lparr>orchestratorStorage := (orchestratorStorage st)(orchestratorId \<mapsto> orchestratorApi),
                     nextObject := Suc (nextObject st)\<rparr>)))"

text \<open>
  \<open>resetInstanceState\<close>, as far as these fields go: the registry is cleared and the cache
  is reset.
\<close>

definition resetInstanceState :: "'c cache_core \<Rightarrow> 'c cache_core" where
  "resetInstanceState st =
     st\<lparr>orchestratorStorage := Map.empty, compilerCache := lru_reset (compilerCache st)\<rparr>"

text \<open>
  What happens to an instance over its life, one operation after the other: lookups of
  either kind, firings of the sweep timer, resets.
\<close>

datatype 'c core_op =
    GetCompilerApi nat 'c
  | GetOrchestratorApi 'c
  | SweepTick nat
  | ResetInstanceState

fun core_step :: "'c core_op \<Rightarrow> 'c cache_core \<Rightarrow> 'c cache_core" where
  "core_step (GetCompilerApi now context) st = snd (getCompilerApi now context st)"
| "core_step (GetOrchestratorApi context) st = snd (getOrchestratorApi context st)"
| "core_step (SweepTick now) st = sweep_tick now st"
| "core_step ResetInstanceState st = resetInstanceState st"

fun core_run :: "'c core_op list \<Rightarrow> 'c cache_core \<Rightarrow> 'c cache_core" where
  "core_run [] st = st"
| "core_run (x # xs) st = core_run xs (core_step x st)"

text \<open>
  The cache has an entry for the key (it has not been evicted or removed); the entry of
  the key, if there is one, is older than the max-age at time \<open>now\<close>; every entry of the
  key holds the value \<open>a\<close>.
\<close>

definition has_entry :: "string \<Rightarrow> 'v lru \<Rightarrow> bool" where
  "has_entry k c = (map_of (lru_entries c) k \<noteq> None)"

definition entry_expired :: "nat \<Rightarrow> string \<Rightarrow> 'v lru \<Rightarrow> bool" where
  "entry_expired now k c =
     (case map_of (lru_entries c) k of
        None \<Rightarrow> False
      | Some (v, stamp) \<Rightarrow> lru_expired c now stamp)"

definition only_value :: "string \<Rightarrow> 'v \<Rightarrow> 'v lru \<Rightarrow> bool" where
  "only_value k a c = (\<forall>e \<in> set (lru_entries c). fst e = k \<longrightarrow> fst (snd e) = a)"

text \<open>The entry of the key is expired at the time the operation looks at the cache.\<close>

fun expired_at :: "'c core_op \<Rightarrow> string \<Rightarrow> 'c cache_core \<Rightarrow> bool" where
  "expired_at (GetCompilerApi now context) k st = entry_expired now k (compilerCache st)"
| "expired_at (SweepTick now) k st = entry_expired now k (compilerCache st)"
| "expired_at (GetOrchestratorApi context) k st = False"
| "expired_at ResetInstanceState k st = False"

text \<open>
  Neither eviction nor expiry of the key's entry between two lookups: the entry is not
  expired when an operation in between looks at the cache, it is still in the cache after
  each of them, and it is not expired at the time \<open>t\<close> of the second lookup.
\<close>

fun undisturbed :: "string \<Rightarrow> 'c core_op list \<Rightarrow> nat \<Rightarrow> 'c cache_core \<Rightarrow> bool" where
  "undisturbed k [] t st = (\<not> entry_expired t k (compilerCache st))"
| "undisturbed k (x # xs) t st =
     (\<not> expired_at x k st \<and> has_entry k (compilerCache (core_step x st)) \<and>
      undisturbed k xs t (core_step x st))"

subsection \<open>The scheduled-refresh timer: \<open>startScheduledRefreshTimer\<close>\<close>

text \<open>
  Numbers in template strings: the decimal digits, with a sign for negative numbers
  (\<open>digit_char\<close> is applied below ten only).
\<close>

definition digit_char :: "nat \<Rightarrow> char" where
  "digit_char d = ''0123456789'' ! d"

fun decimal :: "nat \<Rightarrow> string" where
  "decimal n = (if 9 < n then decimal (n div 10) @ [digit_char (n mod 10)] else [digit_char n])"

declare decimal.simps [simp del]

definition number_text :: "int \<Rightarrow> string" where
  "number_text i = (if 0 \<le> i then decimal (nat i) else CHR ''-'' # decimal (nat (- i)))"

text \<open>
  What the class reads from outside itself: the environment variable \<open>CUBEJS_DB_TYPE\<close>
  (read, never written, by the methods below) and the helper \<open>formatDuration\<close>, which
  is not among the sources and is left open. \<open>longExecutionThreshold\<close> is the
  specification's threshold of \<open>createCancelableInterval\<close> (see below).
\<close>

record environment =
  CUBEJS_DB_TYPE :: "string option"
  formatDuration :: "nat \<Rightarrow> string"
  longExecutionThreshold :: nat

text \<open>\<open>a || b\<close> on JavaScript values, and an environment variable as a value.\<close>

definition js_or :: "jsval \<Rightarrow> jsval \<Rightarrow> jsval" where
  "js_or a b = (if truthy a then a else b)"

definition env_value :: "string option \<Rightarrow> jsval" where
  "env_value v = (case v of None \<Rightarrow> JUndefined | Some s \<Rightarrow> JStr s)"

text \<open>
  Modelled from the spec: \<open>createCancelableInterval\<close> (package \<open>@cubejs-backend/shared\<close>) is
  not among the sources. The specification's scheduler: a state among idle, running,
  cancelling and cancelled; an incrementing interval-id and the start time of the
  invocation in flight. While running, each period starts an invocation unless the
  previous one has not completed; in that case no invocation is started and the overlap
  callback is called with the interval-id, once per overrun episode; when the overrun
  invocation completes and its elapsed time exceeded the long-execution threshold, the
  resolved callback is called with the interval-id and the elapsed time, and the episode
  is closed.
\<close>

datatype schedulerState = Idle | Running | Cancelling | Cancelled

text \<open>
  Modelled from the spec: the state of a \<open>CancelableInterval\<close>. The first three fields are
  the options object it was created with, under the keys that
  \<open>startScheduledRefreshTimer\<close> uses: the period and the two callbacks, a callback being
  the function from its arguments to the event it hands to the logger. Then the scheduler
  state, the interval-id counter, the start time of the invocation in flight if there is
  one, and whether the current overrun episode has been reported.
\<close>

record cancelableInterval =
  interval :: int
  onDuplicatedExecution :: "nat \<Rightarrow> log_event"
  onDuplicatedStateResolved :: "nat \<Rightarrow> nat \<Rightarrow> log_event"
  state :: schedulerState
  intervalId :: nat
  inFlight :: "nat option"
  duplicated :: bool

text \<open>Modelled from the spec: the scheduler as \<open>createCancelableInterval\<close> returns it, started.\<close>

definition createCancelableInterval ::
    "int \<Rightarrow> (nat \<Rightarrow> log_event) \<Rightarrow> (nat \<Rightarrow> nat \<Rightarrow> log_event) \<Rightarrow> cancelableInterval" where
  "createCancelableInterval ms onExecution onResolved =
     \<lparr>interval = ms, onDuplicatedExecution = onExecution,
      onDuplicatedStateResolved = onResolved,
      state = Running, intervalId = 0, inFlight = None, duplicated = False\<rparr>"

text \<open>
  Modelled from the spec: a period has elapsed at time \<open>now\<close>. The result is what the
  callbacks called have handed to the logger, and the interval afterwards.
\<close>

definition interval_tick :: "nat \<Rightarrow> cancelableInterval \<Rightarrow> log_event list \<times> cancelableInterval" where
  "interval_tick now iv =
     (if state iv \<noteq> Running then ([], iv)
      else case inFlight iv of
             Some started \<Rightarrow>
               if duplicated iv then ([], iv)
               else ([onDuplicatedExecution iv (intervalId iv)], iv\<lparr>duplicated := True\<rparr>)
           | None \<Rightarrow> ([], iv\<lparr>intervalId := Suc (intervalId iv), inFlight := Some now\<rparr>))"

text \<open>Modelled from the spec: the invocation in flight completes at time \<open>now\<close>.\<close>

definition interval_finished ::
    "nat \<Rightarrow> nat \<Rightarrow> cancelableInterval \<Rightarrow> log_event list \<times> cancelableInterval" where
  "interval_finished threshold now iv =
     (case inFlight iv of
        None \<Rightarrow> ([], iv)
      | Some started \<Rightarrow>
          (if duplicated iv \<and> threshold < now - started
           then [onDuplicatedStateResolved iv (intervalId iv) (now - started)] else [],
           iv\<lparr>inFlight := None, duplicated := False,
              state := (if state iv = Cancelling then Cancelled else state iv)\<rparr>))"

text \<open>
  The fields of the instance that the refresh timer uses: the options \<open>dbType\<close> (a
  string, a function or undefined) and \<open>scheduledRefreshTimer\<close> (a number, a boolean or
  undefined), the interval, and what the logger received. \<open>intervalsCreated\<close> counts the
  calls of \<open>createCancelableInterval\<close>.
\<close>

record refresh_core =
  dbType :: jsval
  scheduledRefreshTimer :: jsval
  scheduledRefreshTimerInterval :: "cancelableInterval option"
  logged :: "log_event list"
  intervalsCreated :: nat

text \<open>
  \<open>isReadyForQueryProcessing\<close> reads \<open>process.env.CUBEJS_DB_TYPE\<close> afresh at every call.
\<close>

definition isReadyForQueryProcessing :: "environment \<Rightarrow> refresh_core \<Rightarrow> bool" where
  "isReadyForQueryProcessing env st =
     (js_or (dbType st) (env_value (CUBEJS_DB_TYPE env)) \<noteq> JUndefined)"

text \<open>
  \<open>detectScheduledRefreshTimer\<close>: a truthy number gives that many seconds in milliseconds
  (\<open>parseInt\<close> of an integer is the integer), any other truthy value 30000, anything else
  \<open>false\<close> (here \<open>None\<close>).
\<close>

definition detectScheduledRefreshTimer :: "jsval \<Rightarrow> int option" where
  "detectScheduledRefreshTimer t =
     (case t of
        JNum n \<Rightarrow> if n \<noteq> 0 then Some (n * 1000) else None
      | other \<Rightarrow> if truthy other then Some 30000 else None)"

definition not_ready_reason :: string where
  "not_ready_reason = ''Instance is not ready for query processing, refresh scheduler is disabled''"

definition no_timer_reason :: string where
  "no_timer_reason =
     ''Instance configured without scheduler refresh timer, refresh scheduler is disabled''"

text \<open>
  \<open>startScheduledRefreshTimer\<close>. The readiness test comes first, then the test for an
  existing interval. The interval is created with the detected period and the two
  closures of the options literal, which hand to the logger an event name and a template
  string; the first closure captures the detected period.
\<close>

definition startScheduledRefreshTimer ::
    "environment \<Rightarrow> refresh_core \<Rightarrow> (bool \<times> string option) \<times> refresh_core" where
  "startScheduledRefreshTimer env st =
     (if \<not> isReadyForQueryProcessing env st then ((False, Some not_ready_reason), st)
      else if scheduledRefreshTimerInterval st \<noteq> None then ((True, None), st)
      else case detectScheduledRefreshTimer (scheduledRefreshTimer st) of
             Some ms \<Rightarrow>
               if ms \<noteq> 0 then
                 ((True, None),
                  st\<lparr>scheduledRefreshTimerInterval :=
                       Some (createCancelableInterval ms
                         (\<lambda>intervalId'.
                            (''Refresh Scheduler Interval Error'',
                             [(''error'',
                               ''Previous interval #'' @ decimal intervalId' @
                               '' was not finished with '' @ number_text ms @ '' interval'')]))
                         (\<lambda>intervalId' elapsed.
                            (''Refresh Scheduler Long Execution'',
                             [(''warning'',
                               ''Interval #'' @ decimal intervalId' @ '' finished after '' @
                               formatDuration env elapsed)]))),
                     intervalsCreated := Suc (intervalsCreated st)\<rparr>)
               else ((False, Some no_timer_reason), st)
           | None \<Rightarrow> ((False, Some no_timer_reason), st))"

text \<open>\<open>reloadEnvVariables\<close>, as far as these fields go.\<close>

definition reloadEnvVariables :: "environment \<Rightarrow> refresh_core \<Rightarrow> refresh_core" where
  "reloadEnvVariables env st = st\<lparr>dbType := js_or (dbType st) (env_value (CUBEJS_DB_TYPE env))\<rparr>"

text \<open>
  The constructor, given the initialised options: the fields start empty and
  \<open>startScheduledRefreshTimer\<close> is called. (\<open>handleConfiguration\<close> takes \<open>dbType\<close> from the
  options given or else from \<open>process.env.CUBEJS_DB_TYPE\<close>, and lets it be undefined only
  for a development server without a configuration file.)
\<close>

definition new_refresh_core :: "environment \<Rightarrow> jsval \<Rightarrow> jsval \<Rightarrow> refresh_core" where
  "new_refresh_core env dbType' scheduledRefreshTimer' =
     snd (startScheduledRefreshTimer env
            \<lparr>dbType = dbType', scheduledRefreshTimer = scheduledRefreshTimer',
             scheduledRefreshTimerInterval = None, logged = [], intervalsCreated = 0\<rparr>)"

text \<open>
  What happens to the instance afterwards: \<open>startScheduledRefreshTimer\<close> is called again
  (it is public, and \<open>resetInstanceState\<close> calls it), the options are reloaded, a period
  of the interval elapses at some time, or the refresh in flight completes at some time.
  A call that reads the environment carries the value \<open>process.env.CUBEJS_DB_TYPE\<close> has
  at that moment.
\<close>

datatype refresh_event = Start "string option" | Reload "string option" | Tick nat | Finished nat

definition deliver :: "log_event list \<times> cancelableInterval \<Rightarrow> refresh_core \<Rightarrow> refresh_core" where
  "deliver r st =
     st\<lparr>scheduledRefreshTimerInterval := Some (snd r), logged := logged st @ fst r\<rparr>"

fun refresh_step :: "environment \<Rightarrow> refresh_event \<Rightarrow> refresh_core \<Rightarrow> refresh_core" where
  "refresh_step env (Start v) st = snd (startScheduledRefreshTimer (env\<lparr>CUBEJS_DB_TYPE := v\<rparr>) st)"
| "refresh_step env (Reload v) st = reloadEnvVariables (env\<lparr>CUBEJS_DB_TYPE := v\<rparr>) st"
| "refresh_step env (Tick now) st =
     (case scheduledRefreshTimerInterval st of
        None \<Rightarrow> st
      | Some iv \<Rightarrow> deliver (interval_tick now iv) st)"
| "refresh_step env (Finished now) st =
     (case scheduledRefreshTimerInterval st of
        None \<Rightarrow> st
      | Some iv \<Rightarrow> deliver (interval_finished (longExecutionThreshold env) now iv) st)"

fun refresh_run :: "environment \<Rightarrow> refresh_event list \<Rightarrow> refresh_core \<Rightarrow> refresh_core" where
  "refresh_run env [] st = st"
| "refresh_run env (ev # evs) st = refresh_run env evs (refresh_step env ev st)"

text \<open>
  What holds of the timer fields in every state the instance can reach: no interval and
  none ever created, or one interval, created once, with the period that the configured
  timer gives.
\<close>

definition refresh_ok :: "refresh_core \<Rightarrow> bool" where
  "refresh_ok st =
     (case scheduledRefreshTimerInterval st of
        None \<Rightarrow> intervalsCreated st = 0
      | Some iv \<Rightarrow>
          intervalsCreated st = 1 \<and>
          detectScheduledRefreshTimer (scheduledRefreshTimer st) = Some (interval iv))"



subsection \<open>Properties of \<open>migrateBackgroundContext\<close>\<close>

lemma migrate_keeps_flag_clear:
  "\<not> warningBackgroundContextShow st \<Longrightarrow>
     snd (migrateBackgroundContext c st) = st"
  by (simp add: migrateBackgroundContext_def split: option.splits)

lemma migrateAll_flag_clear:
  "\<not> warningBackgroundContextShow st \<Longrightarrow> migrateAll cs st = st"
  by (induction cs arbitrary: st) (simp_all add: migrate_keeps_flag_clear)

text \<open>
  C4, as the code has it. \<open>null\<close> gives \<open>null\<close>. A context whose current field is set
  and whose legacy field is not gets the legacy field synthesised with the same value.
  A context whose legacy field is set gets the current field set to the legacy value,
  whether or not the current field was set: with both fields set the legacy value
  overwrites the current one, and the context comes back unchanged exactly when the two
  were equal. The instance state plays no part in the returned context.
\<close>

theorem migrateBackgroundContext_cases:
  "fst (migrateBackgroundContext None st) = None \<and>
   (truthy (securityContext c) \<and> \<not> truthy (authInfo c) \<longrightarrow>
      fst (migrateBackgroundContext (Some c) st) = Some (c\<lparr>authInfo := securityContext c\<rparr>)) \<and>
   (truthy (authInfo c) \<longrightarrow>
      fst (migrateBackgroundContext (Some c) st) = Some (c\<lparr>securityContext := authInfo c\<rparr>)) \<and>
   (truthy (authInfo c) \<and> truthy (securityContext c) \<longrightarrow>
      (fst (migrateBackgroundContext (Some c) st) = Some c) = (securityContext c = authInfo c))"
proof -
  have "(c\<lparr>securityContext := authInfo c\<rparr> = c) = (securityContext c = authInfo c)"
    by (cases c) auto
  then show ?thesis
    by (simp add: migrateBackgroundContext_def)
qed

theorem migrateBackgroundContext_cases_witness:
  "fst (migrateBackgroundContext
          (Some \<lparr>authInfo = JUndefined, securityContext = JStr ''y'', others = []\<rparr>) bg_initial)
     = Some \<lparr>authInfo = JStr ''y'', securityContext = JStr ''y'', others = []\<rparr> \<and>
   fst (migrateBackgroundContext
          (Some \<lparr>authInfo = JStr ''x'', securityContext = JUndefined, others = []\<rparr>) bg_initial)
     = Some \<lparr>authInfo = JStr ''x'', securityContext = JStr ''x'', others = []\<rparr> \<and>
   fst (migrateBackgroundContext
          (Some \<lparr>authInfo = JStr ''x'', securityContext = JStr ''x'', others = []\<rparr>) bg_initial)
     = Some \<lparr>authInfo = JStr ''x'', securityContext = JStr ''x'', others = []\<rparr> \<and>
   fst (migrateBackgroundContext
          (Some \<lparr>authInfo = JStr ''x'', securityContext = JStr ''y'', others = []\<rparr>) bg_initial)
     = Some \<lparr>authInfo = JStr ''x'', securityContext = JStr ''x'', others = []\<rparr>"
  using
    migrateBackgroundContext_cases
      [where c = "\<lparr>authInfo = JUndefined, securityContext = JStr ''y'', others = []\<rparr>" and st = bg_initial]
    migrateBackgroundContext_cases
      [where c = "\<lparr>authInfo = JStr ''x'', securityContext = JUndefined, others = []\<rparr>" and st = bg_initial]
    migrateBackgroundContext_cases
      [where c = "\<lparr>authInfo = JStr ''x'', securityContext = JStr ''x'', others = []\<rparr>" and st = bg_initial]
    migrateBackgroundContext_cases
      [where c = "\<lparr>authInfo = JStr ''x'', securityContext = JStr ''y'', others = []\<rparr>" and st = bg_initial]
  by simp

text \<open>
  With neither field set, \<open>result\<close> is never assigned: the method returns \<open>null\<close> and the
  other properties of the context are dropped.
\<close>

lemma migrateBackgroundContext_neither:
  "\<not> truthy (securityContext c) \<Longrightarrow> \<not> truthy (authInfo c) \<Longrightarrow>
     fst (migrateBackgroundContext (Some c) st) = None"
  by (simp add: migrateBackgroundContext_def)

text \<open>
  C4 as the specification words it fails twice. With both fields set to different values
  the context does not pass through unchanged (the current field is overwritten), and
  with neither field set the result is \<open>null\<close>, not the context.
\<close>

theorem migrateBackgroundContext_passthrough_counterexample:
  "fst (migrateBackgroundContext
          (Some \<lparr>authInfo = JStr ''x'', securityContext = JStr ''y'', others = []\<rparr>) bg_initial)
     \<noteq> Some \<lparr>authInfo = JStr ''x'', securityContext = JStr ''y'', others = []\<rparr> \<and>
   fst (migrateBackgroundContext
          (Some \<lparr>authInfo = JUndefined, securityContext = JUndefined, others = []\<rparr>) bg_initial)
     \<noteq> Some \<lparr>authInfo = JUndefined, securityContext = JUndefined, others = []\<rparr>"
  by (simp add: migrateBackgroundContext_def)

text \<open>
  C5 on the code. The flag starts cleared and only the guarded branch ever writes it, so
  the guard never passes: over any sequence of calls from the initial state, legacy-shaped
  contexts included, the logger receives nothing. In particular the first call with the
  legacy field set emits no \<open>auth_info_deprecation\<close> event.
\<close>

theorem auth_info_deprecation_never_logged:
  "bg_logged (migrateAll cs bg_initial) = [] \<and>
   bg_logged (snd (migrateBackgroundContext
        (Some \<lparr>authInfo = JStr ''x'', securityContext = JUndefined, others = []\<rparr>) bg_initial)) = []"
  by (simp add: migrateAll_flag_clear migrate_keeps_flag_clear bg_initial_def)

subsection \<open>Properties of driver acquisition\<close>

lemma proj_slot_set [simp]:
  "promises (slot_set k v st) = promises st"
  "parked (slot_set k v st) = parked st"
  "calls (slot_set k v st) = calls st"
  by (simp_all add: slot_set_def split: slot.splits)

lemma proj_settle [simp]:
  "promises (settle p v st) = (promises st)[p := v]"
  "parked (settle p v st) = parked st"
  "calls (settle p v st) = calls st"
  by (simp_all add: settle_def)

lemma proj_park [simp]:
  "promises (park p k w st) = promises st"
  "parked (park p k w st) = (parked st)(p \<mapsto> (k, w))"
  "calls (park p k w st) = calls st"
  by (simp_all add: park_def)

lemma proj_called [simp]:
  "promises (called c st) = promises st"
  "parked (called c st) = parked st"
  "calls (called c st) = calls st @ [c]"
  by (simp_all add: called_def)

lemma slot_read_simps [simp]:
  "slot_read k (slot_set k' v st) =
     (if k = k' then (case v of Some p \<Rightarrow> Promise p | None \<Rightarrow> Null) else slot_read k st)"
  "slot_read k (settle p pr st) = slot_read k st"
  "slot_read k (park p k' w st) = slot_read k st"
  "slot_read k (called c st) = slot_read k st"
  "slot_read k (st\<lparr>promises := ps\<rparr>) = slot_read k st"
  "slot_read k (st\<lparr>parked := pk\<rparr>) = slot_read k st"
  by (auto simp: slot_read_def slot_set_def settle_def park_def called_def
      split: slot.splits option.splits)

lemmas broker_steps =
  getDriver_def getExternalDriverFactory_def acquire_def start_attempt_def after_factory_def
  catch_block_def resume_def outcome_of_def Let_def

lemma inherited_simps [simp]:
  "inherited External = False"
  "inherited (DataSource ds) = (ds \<in> set object_prototype)"
  by (simp_all add: inherited_def)

lemma default_not_inherited [simp]: "''default'' \<notin> set object_prototype"
  by (simp add: object_prototype_def)

lemma constructor_inherited [simp]: "''constructor'' \<in> set object_prototype"
  by (simp add: object_prototype_def)

lemma slot_read_initial [simp]: "\<not> inherited k \<Longrightarrow> slot_read k broker_initial = Null"
  by (cases k) (simp_all add: slot_read_def broker_initial_def)


lemma slot_fields:
  "driverPromise (slot_set k v st) =
     (case k of DataSource ds \<Rightarrow> (driverPromise st)(ds \<mapsto> v) | External \<Rightarrow> driverPromise st)"
  "externalPreAggregationsDriverPromise (slot_set k v st) =
     (case k of DataSource ds \<Rightarrow> externalPreAggregationsDriverPromise st | External \<Rightarrow> v)"
  "driverPromise (settle p pr st) = driverPromise st"
  "externalPreAggregationsDriverPromise (settle p pr st) = externalPreAggregationsDriverPromise st"
  "driverPromise (park p k w st) = driverPromise st"
  "externalPreAggregationsDriverPromise (park p k w st) = externalPreAggregationsDriverPromise st"
  "driverPromise (called c st) = driverPromise st"
  "externalPreAggregationsDriverPromise (called c st) = externalPreAggregationsDriverPromise st"
  "driverPromise broker_initial = Map.empty"
  "externalPreAggregationsDriverPromise broker_initial = None"
  by (simp_all add: slot_set_def settle_def park_def called_def broker_initial_def
      split: slot.splits)

lemma initial_fields [simp]:
  "promises broker_initial = []" "parked broker_initial = Map.empty" "calls broker_initial = []"
  by (simp_all add: broker_initial_def)



lemma catch_block_proj:
  "length (promises (catch_block k p dr e st)) = length (promises st)"
  "q \<noteq> p \<Longrightarrow> promises (catch_block k p dr e st) ! q = promises st ! q"
  "q \<noteq> p \<Longrightarrow> parked (catch_block k p dr e st) q = parked st q"
  "count_list (calls (catch_block k p dr e st)) (FactoryCall q) = count_list (calls st) (FactoryCall q)"
  "count_list (calls (catch_block k p dr e st)) (TestConnectionCall q) =
     count_list (calls st) (TestConnectionCall q)"
  by (simp_all add: catch_block_def Let_def split: option.splits outcome.splits)











lemma attempt_ok_slot_set [simp]: "attempt_ok q (slot_set k v st) = attempt_ok q st"
  by (simp add: attempt_ok_def)







lemma catch_block_slot:
  "slot_read k' (catch_block k p dr e st) = (if k' = k then Null else slot_read k' st)"
  by (simp add: catch_block_def Let_def split: option.splits outcome.splits)

lemma slots_ok_catch_block: "slots_ok st \<Longrightarrow> slots_ok (catch_block k p dr e st)"
  by (simp add: slots_ok_def catch_block_slot catch_block_proj)

lemma after_factory_slot:
  "slot_read k' (after_factory k p v st) = Promise q \<Longrightarrow> slot_read k' st = Promise q"
  by (simp add: after_factory_def Let_def catch_block_slot
      split: option.splits setLogger_method.splits outcome.splits if_splits)

lemma after_factory_length:
  "length (promises (after_factory k p v st)) = length (promises st)"
  by (simp add: after_factory_def Let_def catch_block_proj
      split: option.splits setLogger_method.splits outcome.splits)

lemma slots_ok_after_factory: "slots_ok st \<Longrightarrow> slots_ok (after_factory k p v st)"
  unfolding slots_ok_def after_factory_length by (blast dest: after_factory_slot)









lemma untouched_catch_block:
  "untouched st \<Longrightarrow> \<not> inherited k \<Longrightarrow> untouched (catch_block k p dr e st)"
  by (cases k)
     (auto simp: untouched_def catch_block_def Let_def slot_set_def settle_def park_def called_def
       split: option.splits outcome.splits if_splits)

lemma untouched_called: "untouched (called c st) = untouched st"
  by (simp add: untouched_def called_def)

lemma untouched_park: "untouched st \<Longrightarrow> \<not> inherited k \<Longrightarrow> untouched (park p k w st)"
  by (auto simp: untouched_def park_def)

lemma untouched_after_factory:
  "untouched st \<Longrightarrow> \<not> inherited k \<Longrightarrow> untouched (after_factory k p v st)"
  by (simp add: after_factory_def Let_def untouched_catch_block untouched_called untouched_park
      split: option.splits setLogger_method.splits outcome.splits)

lemma untouched_resume:
  assumes "untouched st"
  shows "untouched (resume p st)"
proof (cases "parked st p")
  case None
  with assms show ?thesis by (simp add: resume_def)
next
  case (Some kw)
  obtain k w where kw: "kw = (k, w)" by (cases kw)
  let ?st1 = "st\<lparr>parked := (parked st)(p := None)\<rparr>"
  from assms Some kw have nk: "\<not> inherited k" unfolding untouched_def by blast
  from assms have u1: "untouched ?st1" by (auto simp: untouched_def split: if_splits)
  then have st: "untouched (settle p v ?st1)" for v by (simp add: untouched_def settle_def)
  show ?thesis
    using u1 nk st
    by (simp add: resume_def Some kw Let_def untouched_catch_block untouched_after_factory
        split: await_point.splits sum.splits)
qed

lemma untouched_reads_inherited:
  "untouched st \<Longrightarrow> ds \<in> set object_prototype \<Longrightarrow> slot_read (DataSource ds) st = Inherited ds"
  by (simp add: untouched_def slot_read_def)

lemma untouched_acquire:
  assumes "untouched st"
  shows "untouched (snd (acquire k f st))"
proof (cases "slot_read k st")
  case (Promise p)
  with assms show ?thesis by (simp add: acquire_def)
next
  case (Inherited name)
  with assms show ?thesis by (simp add: acquire_def)
next
  case Null
  have nk: "\<not> inherited k"
  proof
    assume "inherited k"
    then obtain ds where "k = DataSource ds" "ds \<in> set object_prototype"
      by (cases k) simp_all
    with assms have "slot_read k st = Inherited ds" by (simp add: untouched_reads_inherited)
    with Null show False by simp
  qed
  let ?p = "length (promises st)"
  let ?st0 = "st\<lparr>promises := promises st @ [Pending]\<rparr>"
  from assms have "untouched (called (FactoryCall ?p) ?st0)"
    by (simp add: untouched_def called_def)
  with nk have "untouched (start_attempt k ?p f ?st0)"
    by (simp add: start_attempt_def Let_def untouched_catch_block untouched_park
        split: outcome.splits)
  with nk have "untouched (slot_set k (Some ?p) (start_attempt k ?p f ?st0))"
    by (cases k) (auto simp: untouched_def slot_set_def)
  then show ?thesis by (simp add: acquire_def Null Let_def)
qed

lemma untouched_run: "untouched st \<Longrightarrow> untouched (run evs st)"
proof (induction evs arbitrary: st)
  case Nil
  then show ?case by simp
next
  case (Cons ev evs)
  from Cons.prems have "untouched (step ev st)"
    by (cases ev) (simp_all add: untouched_acquire untouched_resume)
  then show ?case using Cons.IH by simp
qed

lemma untouched_initial: "untouched broker_initial"
  by (simp add: untouched_def broker_initial_def)

text \<open>
  A data-source name that is a property name of \<open>Object.prototype\<close> never reaches the
  factory: in every reachable state the closure returns the inherited value and changes
  nothing.
\<close>

lemma inherited_names_untouched:
  "ds \<in> set object_prototype \<Longrightarrow>
     getDriver ds f (run evs broker_initial) = (Inherited ds, run evs broker_initial)"
proof -
  assume ds: "ds \<in> set object_prototype"
  have "untouched (run evs broker_initial)"
    by (rule untouched_run) (rule untouched_initial)
  then have "slot_read (DataSource ds) (run evs broker_initial) = Inherited ds"
    using ds by (rule untouched_reads_inherited)
  then show ?thesis by (simp add: getDriver_def acquire_def)
qed







text \<open>
  C2 on the code, for a factory that throws before returning (the default factory is
  synchronous). The \<open>catch\<close> block clears the slot while the async body is still running
  inside the assignment; the assignment then stores the rejected promise. The slot keeps
  the failed promise, and the next call, whatever its factory would do, returns that
  promise and invokes nothing. The same holds for the external slot.
\<close>

theorem sync_throw_keeps_failed_promise:
  "fst (getDriver ''default'' (Throws e) broker_initial) = Promise 0 \<and>
   driverPromise (snd (getDriver ''default'' (Throws e) broker_initial)) ''default''
     = Some (Some 0) \<and>
   outcome_of 0 (snd (getDriver ''default'' (Throws e) broker_initial)) = Rejected e \<and>
   getDriver ''default'' f (snd (getDriver ''default'' (Throws e) broker_initial))
     = (Promise 0, snd (getDriver ''default'' (Throws e) broker_initial)) \<and>
   calls (snd (getDriver ''default'' f (snd (getDriver ''default'' (Throws e) broker_initial))))
     = [FactoryCall 0] \<and>
   fst (getExternalDriverFactory (Throws e) broker_initial) = Promise 0 \<and>
   externalPreAggregationsDriverPromise (snd (getExternalDriverFactory (Throws e) broker_initial))
     = Some 0 \<and>
   outcome_of 0 (snd (getExternalDriverFactory (Throws e) broker_initial)) = Rejected e \<and>
   getExternalDriverFactory f (snd (getExternalDriverFactory (Throws e) broker_initial))
     = (Promise 0, snd (getExternalDriverFactory (Throws e) broker_initial))"
  by (simp add: broker_steps slot_fields)

text \<open>
  The sibling path: when the factory's promise rejects instead, the \<open>catch\<close> block runs
  after the assignment, the slot is null afterwards and the next call invokes the
  factory afresh.
\<close>

lemma async_failure_resets_slot:
  "driverPromise (resume 0 (snd (getDriver ''default'' (Rejects e) broker_initial))) ''default''
     = Some None \<and>
   slot_read (DataSource ''default'')
     (resume 0 (snd (getDriver ''default'' (Rejects e) broker_initial))) = Null \<and>
   outcome_of 0 (resume 0 (snd (getDriver ''default'' (Rejects e) broker_initial))) = Rejected e \<and>
   fst (getDriver ''default'' f (resume 0 (snd (getDriver ''default'' (Rejects e) broker_initial))))
     = Promise 1 \<and>
   calls (snd (getDriver ''default'' f (resume 0 (snd (getDriver ''default'' (Rejects e) broker_initial)))))
     = [FactoryCall 0, FactoryCall 1]"
  by (simp add: broker_steps slot_fields split: outcome.splits)

text \<open>
  C3, as the code has it. When the factory has given a driver \<open>d\<close> and the attempt then
  fails with \<open>e\<close> (\<open>setLogger\<close> or \<open>testConnection\<close> throws, or \<open>testConnection\<close> rejects),
  the slot is cleared, \<open>release\<close> is called once on the driver, and the callers observe
  \<open>e\<close> if \<open>release\<close> succeeds; if \<open>release\<close> throws or rejects, its error is not swallowed:
  it is what the callers observe in place of \<open>e\<close>.
\<close>

theorem release_failure_is_not_swallowed:
  assumes "slot_read k st = Null" and "failure_of d = Some e"
  shows "(case acquire k (Resolves (Some d)) st of
            (r, st1) \<Rightarrow>
              r = Promise (length (promises st)) \<and>
              (let p = length (promises st) in
               outcome_of p (resume p (resume p (resume p st1)))
                 = Rejected (observed_failure e d) \<and>
               slot_read k (resume p (resume p (resume p st1))) = Null \<and>
               count_list (calls (resume p (resume p (resume p st1)))) (ReleaseCall p)
                 = Suc (count_list (calls st) (ReleaseCall p))))"
proof -
  show ?thesis
    using assms
    by (cases "setLogger d"; cases "testConnection d"; cases "release d")
       (simp_all add: broker_steps failure_of_def observed_failure_def)
qed

theorem release_failure_is_not_swallowed_witness:
  "slot_read (DataSource ''default'') broker_initial = Null \<and>
   fst (acquire (DataSource ''default'')
               (Resolves (Some \<lparr>handle = 1, setLogger = Absent,
                                 testConnection = Rejects (Error ''connect''),
                                 release = Resolves ()\<rparr>))
               broker_initial) = Promise 0 \<and>
   outcome_of 0
     (resume 0 (resume 0 (resume 0
        (snd (acquire (DataSource ''default'')
               (Resolves (Some \<lparr>handle = 1, setLogger = Absent,
                                 testConnection = Rejects (Error ''connect''),
                                 release = Resolves ()\<rparr>))
               broker_initial)))))
     = Rejected (Error ''connect'') \<and>
   slot_read (DataSource ''default'')
     (resume 0 (resume 0 (resume 0
        (snd (acquire (DataSource ''default'')
               (Resolves (Some \<lparr>handle = 1, setLogger = Absent,
                                 testConnection = Rejects (Error ''connect''),
                                 release = Resolves ()\<rparr>))
               broker_initial)))))
     = Null"
  using release_failure_is_not_swallowed
    [of "DataSource ''default''" broker_initial
        "\<lparr>handle = 1, setLogger = Absent, testConnection = Rejects (Error ''connect''),
          release = Resolves ()\<rparr>"
        "Error ''connect''"]
  by (simp add: failure_of_def observed_failure_def acquire_def Let_def)

text \<open>
  C3 as the specification words it fails when \<open>release\<close> fails: \<open>testConnection\<close> rejects
  with one error, \<open>release\<close> rejects with another, and the callers observe the error of
  \<open>release\<close>, not the original one.
\<close>

theorem release_error_observed_counterexample:
  "outcome_of 0
     (run [Call (DataSource ''default'')
             (Resolves (Some \<lparr>handle = 1, setLogger = Absent,
                               testConnection = Rejects (Error ''connect''),
                               release = Rejects (Error ''release'')\<rparr>)),
           Resume 0, Resume 0, Resume 0] broker_initial)
     = Rejected (Error ''release'') \<and>
   outcome_of 0
     (run [Call (DataSource ''default'')
             (Resolves (Some \<lparr>handle = 1, setLogger = Absent,
                               testConnection = Rejects (Error ''connect''),
                               release = Rejects (Error ''release'')\<rparr>)),
           Resume 0, Resume 0, Resume 0] broker_initial)
     \<noteq> Rejected (Error ''connect'')"
  by (simp add: broker_steps)

subsection \<open>Properties of the compiled-artifact cache and the registry\<close>

lemma lru_max_positive: "0 < lru_max (new_compilerCache opts)"
  by (simp add: new_compilerCache_def split: option.splits)

lemma lru_set_front:
  "0 < lru_max c \<Longrightarrow> map_of (lru_entries (lru_set now k v c)) k = Some (v, now)"
  by (cases "filter (\<lambda>e. fst e \<noteq> k) (lru_entries c)")
     (simp_all add: lru_set_def Let_def)

lemma lru_get_after_set:
  "0 < lru_max c \<Longrightarrow> \<not> lru_expired c now' now \<Longrightarrow>
     fst (lru_get now' k (lru_set now k v c)) = Some v"
  by (simp add: lru_get_def lru_set_front) (simp add: lru_expired_def lru_set_def Let_def)

lemma lru_set_evicts:
  assumes "k \<notin> fst ` set (lru_entries c)" "length (lru_entries c) = lru_max c"
  shows "lru_entries (lru_set now k v c) = butlast ((k, v, now) # lru_entries c)"
proof -
  from assms(1) have "filter (\<lambda>e. fst e \<noteq> k) (lru_entries c) = lru_entries c"
    by (auto simp: filter_id_conv)
  with assms(2) show ?thesis
    by (simp add: lru_set_def Let_def)
qed

lemma lru_set_within:
  assumes "length (lru_entries c) \<le> lru_max c"
  shows "length (lru_entries (lru_set now k v c)) \<le> max 1 (lru_max c)"
proof -
  have "length (filter (\<lambda>e. fst e \<noteq> k) (lru_entries c)) \<le> lru_max c"
    using assms by (meson le_trans length_filter_le)
  then show ?thesis
    by (auto simp: lru_set_def Let_def)
qed

lemma lru_get_hit_front:
  assumes "fst (lru_get now k c) = Some v"
  shows "\<exists>stamp. map_of (lru_entries c) k = Some (v, stamp) \<and> \<not> lru_expired c now stamp \<and>
           lru_entries (snd (lru_get now k c))
             = (k, v, if lru_updateAgeOnGet c then now else stamp)
                 # filter (\<lambda>e. fst e \<noteq> k) (lru_entries c)"
  using assms by (auto simp: lru_get_def split: option.splits if_splits)

lemma abc_example:
  assumes "a \<noteq> b" "a \<noteq> c" "b \<noteq> c" "compilerCacheSize opts = Some 2"
    "maxCompilerCacheKeepAlive opts = None"
  shows "fst (lru_get t4 a (lru_set t3 c z (lru_set t2 b y (lru_set t1 a x (new_compilerCache opts))))) = None"
    "fst (lru_get t4 b (lru_set t3 c z (lru_set t2 b y (lru_set t1 a x (new_compilerCache opts))))) = Some y"
    "fst (lru_get t4 c (lru_set t3 c z (lru_set t2 b y (lru_set t1 a x (new_compilerCache opts))))) = Some z"
  using assms
  by (simp_all add: new_compilerCache_def lru_set_def lru_get_def lru_expired_def Let_def)


lemma recency_example:
  assumes "a \<noteq> b" "a \<noteq> c" "b \<noteq> c" "compilerCacheSize opts = Some 2"
    "maxCompilerCacheKeepAlive opts = None"
  shows "fst (lru_get t5 b (lru_set t4 c z (snd (lru_get t3 a
           (lru_set t2 b y (lru_set t1 a x (new_compilerCache opts))))))) = None"
    "fst (lru_get t5 a (lru_set t4 c z (snd (lru_get t3 a
           (lru_set t2 b y (lru_set t1 a x (new_compilerCache opts))))))) = Some x"
    "fst (lru_get t5 c (lru_set t4 c z (snd (lru_get t3 a
           (lru_set t2 b y (lru_set t1 a x (new_compilerCache opts))))))) = Some z"
  using assms
  by (simp_all add: new_compilerCache_def lru_set_def lru_get_def lru_expired_def Let_def)

lemma keep_alive_example:
  assumes "maxCompilerCacheKeepAlive opts = Some T" "0 < T"
    "t2 \<le> t1 + T" "t1 + T < t3" "t3 \<le> t2 + T"
  shows "lru_entries (snd (lru_get t2 k (lru_set t1 k v (new_compilerCache opts))))
           = [(k, v, if updateCompilerCacheKeepAlive opts = Some True then t2 else t1)]"
    "fst (lru_get t3 k (snd (lru_get t2 k (lru_set t1 k v (new_compilerCache opts)))))
       = (if updateCompilerCacheKeepAlive opts = Some True then Some v else None)"
  using assms
  by (simp_all add: new_compilerCache_def lru_set_def lru_get_def lru_expired_def Let_def
      split: option.splits)

text \<open>
  C6, as the code and the specification's cache have it. The cache is created with the
  configured \<open>compilerCacheSize\<close> as its maximum entry count when that is a non-zero
  number, and with 250 when it is absent or \<open>0\<close>; keep-alive on read is enabled in it
  exactly when \<open>updateCompilerCacheKeepAlive\<close> is configured as \<open>true\<close>. Inserting a new
  key into a full cache drops the entry at the least recently used end, and the size
  never exceeds the maximum. A hit moves the entry to the most recently used end, and
  refreshes its age exactly when keep-alive on read is enabled. In the cache the
  constructor creates: with a size of 2 and no max-age, after inserting three different
  keys in a row the first is a miss and the other two are hits, and if the first key is
  read before the third is inserted it is the second that goes; with a max-age \<open>T\<close>, an
  entry stored at \<open>t1\<close> and read at \<open>t2\<close> within its age carries the age stamp \<open>t2\<close> when
  \<open>updateCompilerCacheKeepAlive\<close> is \<open>true\<close> and \<open>t1\<close> otherwise, so that a read at a time
  later than \<open>t1 + T\<close> and not later than \<open>t2 + T\<close> is a hit in the first case and a miss
  in the second.
\<close>

theorem compilerCache_capacity_lru:
  "(compilerCacheSize opts = None \<longrightarrow> lru_max (new_compilerCache opts :: nat lru) = 250) \<and>
   (compilerCacheSize opts = Some n \<and> n \<noteq> 0 \<longrightarrow> lru_max (new_compilerCache opts :: nat lru) = n) \<and>
   (compilerCacheSize opts = Some 0 \<longrightarrow> lru_max (new_compilerCache opts :: nat lru) = 250) \<and>
   lru_updateAgeOnGet (new_compilerCache opts :: nat lru)
     = (updateCompilerCacheKeepAlive opts = Some True) \<and>
   (k \<notin> fst ` set (lru_entries c) \<and> length (lru_entries c) = lru_max c \<longrightarrow>
      lru_entries (lru_set now k v c) = butlast ((k, v, now) # lru_entries c)) \<and>
   (length (lru_entries c) \<le> lru_max c \<and> 0 < lru_max c \<longrightarrow>
      length (lru_entries (lru_set now k v c)) \<le> lru_max c) \<and>
   (fst (lru_get now k c) = Some v \<longrightarrow>
      (\<exists>stamp. map_of (lru_entries c) k = Some (v, stamp) \<and>
         lru_entries (snd (lru_get now k c))
           = (k, v, if lru_updateAgeOnGet c then now else stamp)
               # filter (\<lambda>e. fst e \<noteq> k) (lru_entries c))) \<and>
   (a \<noteq> b \<and> a \<noteq> d \<and> b \<noteq> d \<and> compilerCacheSize opts = Some 2 \<and>
    maxCompilerCacheKeepAlive opts = None \<longrightarrow>
      fst (lru_get t4 a (lru_set t3 d z (lru_set t2 b y (lru_set t1 a x (new_compilerCache opts)))))
        = None \<and>
      fst (lru_get t4 b (lru_set t3 d z (lru_set t2 b y (lru_set t1 a x (new_compilerCache opts)))))
        = Some y \<and>
      fst (lru_get t4 d (lru_set t3 d z (lru_set t2 b y (lru_set t1 a x (new_compilerCache opts)))))
        = Some z) \<and>
   (a \<noteq> b \<and> a \<noteq> d \<and> b \<noteq> d \<and> compilerCacheSize opts = Some 2 \<and>
    maxCompilerCacheKeepAlive opts = None \<longrightarrow>
      fst (lru_get t5 b (lru_set t4 d z (snd (lru_get t3 a
             (lru_set t2 b y (lru_set t1 a x (new_compilerCache opts))))))) = None \<and>
      fst (lru_get t5 a (lru_set t4 d z (snd (lru_get t3 a
             (lru_set t2 b y (lru_set t1 a x (new_compilerCache opts))))))) = Some x \<and>
      fst (lru_get t5 d (lru_set t4 d z (snd (lru_get t3 a
             (lru_set t2 b y (lru_set t1 a x (new_compilerCache opts))))))) = Some z) \<and>
   (maxCompilerCacheKeepAlive opts = Some T \<and> 0 < T \<and>
    s2 \<le> s1 + T \<and> s1 + T < s3 \<and> s3 \<le> s2 + T \<longrightarrow>
      lru_entries (snd (lru_get s2 k (lru_set s1 k x (new_compilerCache opts))))
        = [(k, x, if updateCompilerCacheKeepAlive opts = Some True then s2 else s1)] \<and>
      fst (lru_get s3 k (snd (lru_get s2 k (lru_set s1 k x (new_compilerCache opts)))))
        = (if updateCompilerCacheKeepAlive opts = Some True then Some x else None))"
proof -
  have size: "(compilerCacheSize opts = None \<longrightarrow> lru_max (new_compilerCache opts :: nat lru) = 250) \<and>
   (compilerCacheSize opts = Some n \<and> n \<noteq> 0 \<longrightarrow> lru_max (new_compilerCache opts :: nat lru) = n) \<and>
   (compilerCacheSize opts = Some 0 \<longrightarrow> lru_max (new_compilerCache opts :: nat lru) = 250)"
    by (simp add: new_compilerCache_def)
  have flag: "lru_updateAgeOnGet (new_compilerCache opts :: nat lru)
     = (updateCompilerCacheKeepAlive opts = Some True)"
    by (simp add: new_compilerCache_def)
  have within: "length (lru_entries (lru_set now k v c)) \<le> lru_max c"
    if "length (lru_entries c) \<le> lru_max c" "0 < lru_max c"
    using lru_set_within [OF that(1), of now k v] that(2) by simp
  have hit: "\<exists>stamp. map_of (lru_entries c) k = Some (v, stamp) \<and>
         lru_entries (snd (lru_get now k c))
           = (k, v, if lru_updateAgeOnGet c then now else stamp)
               # filter (\<lambda>e. fst e \<noteq> k) (lru_entries c)"
    if "fst (lru_get now k c) = Some v"
    using lru_get_hit_front [OF that] by blast
  have keep: "lru_entries (snd (lru_get s2 k (lru_set s1 k x (new_compilerCache opts))))
        = [(k, x, if updateCompilerCacheKeepAlive opts = Some True then s2 else s1)] \<and>
      fst (lru_get s3 k (snd (lru_get s2 k (lru_set s1 k x (new_compilerCache opts)))))
        = (if updateCompilerCacheKeepAlive opts = Some True then Some x else None)"
    if "maxCompilerCacheKeepAlive opts = Some T" "0 < T"
      "s2 \<le> s1 + T" "s1 + T < s3" "s3 \<le> s2 + T"
    by (simp add: keep_alive_example [OF that])
  show ?thesis
    using size flag within hit keep
    by (intro conjI impI) (simp_all add: lru_set_evicts abc_example recency_example)
qed

theorem compilerCache_capacity_lru_witness:
  "lru_max (new_compilerCache
      \<lparr>compilerCacheSize = Some 2, maxCompilerCacheKeepAlive = None,
       updateCompilerCacheKeepAlive = None, schemaVersion = False\<rparr> :: nat lru) = 2 \<and>
   fst (lru_get 4 ''A'' (lru_set 3 ''C'' 30 (lru_set 2 ''B'' 20 (lru_set 1 ''A'' (10::nat)
      (new_compilerCache
         \<lparr>compilerCacheSize = Some 2, maxCompilerCacheKeepAlive = None,
          updateCompilerCacheKeepAlive = None, schemaVersion = False\<rparr>))))) = None \<and>
   fst (lru_get 4 ''B'' (lru_set 3 ''C'' 30 (lru_set 2 ''B'' 20 (lru_set 1 ''A'' (10::nat)
      (new_compilerCache
         \<lparr>compilerCacheSize = Some 2, maxCompilerCacheKeepAlive = None,
          updateCompilerCacheKeepAlive = None, schemaVersion = False\<rparr>))))) = Some 20 \<and>
   fst (lru_get 4 ''C'' (lru_set 3 ''C'' 30 (lru_set 2 ''B'' 20 (lru_set 1 ''A'' (10::nat)
      (new_compilerCache
         \<lparr>compilerCacheSize = Some 2, maxCompilerCacheKeepAlive = None,
          updateCompilerCacheKeepAlive = None, schemaVersion = False\<rparr>))))) = Some 30 \<and>
   fst (lru_get 5 ''B'' (lru_set 4 ''C'' 30 (snd (lru_get 3 ''A''
      (lru_set 2 ''B'' 20 (lru_set 1 ''A'' (10::nat)
        (new_compilerCache
           \<lparr>compilerCacheSize = Some 2, maxCompilerCacheKeepAlive = None,
            updateCompilerCacheKeepAlive = None, schemaVersion = False\<rparr>))))))) = None \<and>
   fst (lru_get 5 ''A'' (lru_set 4 ''C'' 30 (snd (lru_get 3 ''A''
      (lru_set 2 ''B'' 20 (lru_set 1 ''A'' (10::nat)
        (new_compilerCache
           \<lparr>compilerCacheSize = Some 2, maxCompilerCacheKeepAlive = None,
            updateCompilerCacheKeepAlive = None, schemaVersion = False\<rparr>))))))) = Some 10 \<and>
   lru_updateAgeOnGet (new_compilerCache
      \<lparr>compilerCacheSize = None, maxCompilerCacheKeepAlive = Some 100,
       updateCompilerCacheKeepAlive = Some True, schemaVersion = False\<rparr> :: nat lru) \<and>
   lru_entries (snd (lru_get 60 ''A'' (lru_set 0 ''A'' (10::nat)
      (new_compilerCache
         \<lparr>compilerCacheSize = None, maxCompilerCacheKeepAlive = Some 100,
          updateCompilerCacheKeepAlive = Some True, schemaVersion = False\<rparr>))))
     = [(''A'', 10, 60)] \<and>
   fst (lru_get 120 ''A'' (snd (lru_get 60 ''A'' (lru_set 0 ''A'' (10::nat)
      (new_compilerCache
         \<lparr>compilerCacheSize = None, maxCompilerCacheKeepAlive = Some 100,
          updateCompilerCacheKeepAlive = Some True, schemaVersion = False\<rparr>))))) = Some 10 \<and>
   \<not> lru_updateAgeOnGet (new_compilerCache
      \<lparr>compilerCacheSize = None, maxCompilerCacheKeepAlive = Some 100,
       updateCompilerCacheKeepAlive = Some False, schemaVersion = False\<rparr> :: nat lru) \<and>
   lru_entries (snd (lru_get 60 ''A'' (lru_set 0 ''A'' (10::nat)
      (new_compilerCache
         \<lparr>compilerCacheSize = None, maxCompilerCacheKeepAlive = Some 100,
          updateCompilerCacheKeepAlive = Some False, schemaVersion = False\<rparr>))))
     = [(''A'', 10, 0)] \<and>
   fst (lru_get 120 ''A'' (snd (lru_get 60 ''A'' (lru_set 0 ''A'' (10::nat)
      (new_compilerCache
         \<lparr>compilerCacheSize = None, maxCompilerCacheKeepAlive = Some 100,
          updateCompilerCacheKeepAlive = Some False, schemaVersion = False\<rparr>))))) = None"
  using compilerCache_capacity_lru
    [where opts = "\<lparr>compilerCacheSize = Some 2, maxCompilerCacheKeepAlive = None,
                     updateCompilerCacheKeepAlive = None, schemaVersion = False\<rparr>"
       and n = 2 and a = "''A''" and b = "''B''" and d = "''C''"
       and x = "10::nat" and y = "20::nat" and z = "30::nat"
       and k = "''A''" and v = "10::nat" and now = 1
       and c = "new_compilerCache
                  \<lparr>compilerCacheSize = Some 2, maxCompilerCacheKeepAlive = None,
                   updateCompilerCacheKeepAlive = None, schemaVersion = False\<rparr>"
       and ?t1.0 = 1 and ?t2.0 = 2 and ?t3.0 = 3 and ?t4.0 = 4 and ?t5.0 = 5
       and T = 1 and ?s1.0 = 0 and ?s2.0 = 0 and ?s3.0 = 0]
    compilerCache_capacity_lru
    [where opts = "\<lparr>compilerCacheSize = None, maxCompilerCacheKeepAlive = Some 100,
                     updateCompilerCacheKeepAlive = Some True, schemaVersion = False\<rparr>"
       and n = 2 and a = "''A''" and b = "''B''" and d = "''C''"
       and x = "10::nat" and y = "20::nat" and z = "30::nat"
       and k = "''A''" and v = "10::nat" and now = 1
       and c = "new_compilerCache
                  \<lparr>compilerCacheSize = Some 2, maxCompilerCacheKeepAlive = None,
                   updateCompilerCacheKeepAlive = None, schemaVersion = False\<rparr>"
       and ?t1.0 = 1 and ?t2.0 = 2 and ?t3.0 = 3 and ?t4.0 = 4 and ?t5.0 = 5
       and T = 100 and ?s1.0 = 0 and ?s2.0 = 60 and ?s3.0 = 120]
    compilerCache_capacity_lru
    [where opts = "\<lparr>compilerCacheSize = None, maxCompilerCacheKeepAlive = Some 100,
                     updateCompilerCacheKeepAlive = Some False, schemaVersion = False\<rparr>"
       and n = 2 and a = "''A''" and b = "''B''" and d = "''C''"
       and x = "10::nat" and y = "20::nat" and z = "30::nat"
       and k = "''A''" and v = "10::nat" and now = 1
       and c = "new_compilerCache
                  \<lparr>compilerCacheSize = Some 2, maxCompilerCacheKeepAlive = None,
                   updateCompilerCacheKeepAlive = None, schemaVersion = False\<rparr>"
       and ?t1.0 = 1 and ?t2.0 = 2 and ?t3.0 = 3 and ?t4.0 = 4 and ?t5.0 = 5
       and T = 100 and ?s1.0 = 0 and ?s2.0 = 60 and ?s3.0 = 120]
  by simp

text \<open>
  C6 as the specification words it fails for a configured size of \<open>0\<close>: the maximum entry
  count is then 250, not the configured value.
\<close>

theorem compilerCacheSize_zero_counterexample:
  "compilerCacheSize
     \<lparr>compilerCacheSize = Some 0, maxCompilerCacheKeepAlive = None,
      updateCompilerCacheKeepAlive = None, schemaVersion = False\<rparr> = Some 0 \<and>
   lru_max (new_compilerCache
      \<lparr>compilerCacheSize = Some 0, maxCompilerCacheKeepAlive = None,
       updateCompilerCacheKeepAlive = None, schemaVersion = False\<rparr> :: nat lru) = 250"
  by (simp add: new_compilerCache_def)

lemma key_stamp_prune:
  "\<forall>e \<in> set (lru_entries c). fst e = k \<longrightarrow> snd (snd e) = s \<Longrightarrow>
     \<forall>e \<in> set (lru_entries (lru_prune t c)). fst e = k \<longrightarrow> snd (snd e) = s"
  by (simp add: lru_prune_def)

lemma key_stamp_prunes:
  "\<forall>e \<in> set (lru_entries c). fst e = k \<longrightarrow> snd (snd e) = s \<Longrightarrow>
     \<forall>e \<in> set (lru_entries (lru_prunes ts c)). fst e = k \<longrightarrow> snd (snd e) = s"
proof (induction ts arbitrary: c)
  case Nil
  then show ?case by simp
next
  case (Cons t ts)
  from Cons.prems have "\<forall>e \<in> set (lru_entries (lru_prune t c)). fst e = k \<longrightarrow> snd (snd e) = s"
    by (rule key_stamp_prune)
  then show ?case using Cons.IH by simp
qed

lemma key_stamp_set:
  "\<forall>e \<in> set (lru_entries (lru_set s k v c)). fst e = k \<longrightarrow> snd (snd e) = s"
  by (auto simp: lru_set_def Let_def dest!: in_set_butlastD)

lemma lru_maxAge_prunes [simp]: "lru_maxAge (lru_prunes ts c) = lru_maxAge c"
  by (induction ts arbitrary: c) (simp_all add: lru_prune_def)

lemma lru_get_hit_fresh:
  assumes "fst (lru_get now k c) = Some v"
  shows "\<exists>stamp. (k, v, stamp) \<in> set (lru_entries c) \<and> \<not> lru_expired c now stamp"
proof (cases "map_of (lru_entries c) k")
  case None
  with assms show ?thesis by (simp add: lru_get_def)
next
  case (Some vs)
  obtain w stamp where vs: "vs = (w, stamp)" by (cases vs)
  from Some vs have mem: "(k, w, stamp) \<in> set (lru_entries c)"
    by (simp add: map_of_SomeD)
  from assms Some vs have "w = v \<and> \<not> lru_expired c now stamp"
    by (simp add: lru_get_def split: if_splits)
  with mem show ?thesis by blast
qed

lemma never_older_than_maxAge:
  assumes "lru_maxAge c = Some T" "0 < T" "fst (lru_get now k c) = Some v"
  shows "\<exists>stamp. (k, v, stamp) \<in> set (lru_entries c) \<and> now \<le> stamp + T"
  using lru_get_hit_fresh [OF assms(3)] assms(1,2)
  by (auto simp: lru_expired_def)

lemma miss_after_maxAge:
  assumes "lru_maxAge c = Some T" "0 < T" "T < now"
  shows "fst (lru_get now k (lru_prunes ts (lru_set 0 k v c))) = None"
proof (rule ccontr)
  let ?c = "lru_prunes ts (lru_set 0 k v c)"
  assume "fst (lru_get now k ?c) \<noteq> None"
  then obtain w where "fst (lru_get now k ?c) = Some w" by auto
  from lru_get_hit_fresh [OF this] obtain stamp
    where mem: "(k, w, stamp) \<in> set (lru_entries ?c)" and fresh: "\<not> lru_expired ?c now stamp"
    by blast
  have "\<forall>e \<in> set (lru_entries ?c). fst e = k \<longrightarrow> snd (snd e) = 0"
    by (rule key_stamp_prunes) (rule key_stamp_set)
  with mem have "stamp = 0" by auto
  moreover have "lru_maxAge ?c = Some T"
    using assms(1) by (simp add: lru_set_def Let_def)
  ultimately show False
    using fresh assms(2,3) by (simp add: lru_expired_def)
qed

text \<open>
  C7. With \<open>maxCompilerCacheKeepAlive\<close> configured as \<open>T > 0\<close>: the cache is created with
  max-age \<open>T\<close> and the constructor starts a timer of period \<open>T\<close> whose callback prunes the
  cache; after a sweep at time \<open>t\<close> no remaining entry is older than \<open>T\<close>; a lookup that
  hits returns an entry that is not older than \<open>T\<close>; and an entry inserted at time 0 is a
  miss at every time greater than \<open>T\<close>, whatever sweeps have run in between.
\<close>

theorem compilerCache_expiry:
  assumes "maxCompilerCacheKeepAlive opts = Some T" "0 < T"
  shows "lru_maxAge (compilerCache (new_cache_core opts appId orchestratorId)) = Some T \<and>
         maxCompilerCacheKeep (new_cache_core opts appId orchestratorId) = Some T \<and>
         (maxCompilerCacheKeep st = Some T \<longrightarrow>
            compilerCache (sweep_tick t st) = lru_prune t (compilerCache st)) \<and>
         (\<forall>e \<in> set (lru_entries (lru_prune t c)). lru_maxAge c = Some T \<longrightarrow> t \<le> snd (snd e) + T) \<and>
         (lru_maxAge c = Some T \<and> fst (lru_get now k c) = Some v \<longrightarrow>
            (\<exists>stamp. (k, v, stamp) \<in> set (lru_entries c) \<and> now \<le> stamp + T)) \<and>
         (lru_maxAge c = Some T \<and> T < now \<longrightarrow>
            fst (lru_get now k (lru_prunes ts (lru_set 0 k v c))) = None)"
proof -
  have built: "lru_maxAge (compilerCache (new_cache_core opts appId orchestratorId)) = Some T \<and>
         maxCompilerCacheKeep (new_cache_core opts appId orchestratorId) = Some T"
    using assms by (simp add: new_cache_core_def new_compilerCache_def)
  have sweep: "maxCompilerCacheKeep st = Some T \<longrightarrow>
            compilerCache (sweep_tick t st) = lru_prune t (compilerCache st)"
    by (simp add: sweep_tick_def)
  have swept: "\<forall>e \<in> set (lru_entries (lru_prune t c)). lru_maxAge c = Some T \<longrightarrow> t \<le> snd (snd e) + T"
    using assms(2) by (auto simp: lru_prune_def lru_expired_def)
  have hit: "lru_maxAge c = Some T \<and> fst (lru_get now k c) = Some v \<longrightarrow>
            (\<exists>stamp. (k, v, stamp) \<in> set (lru_entries c) \<and> now \<le> stamp + T)"
    using never_older_than_maxAge [OF _ assms(2), of c now k v] by simp
  have miss: "lru_maxAge c = Some T \<and> T < now \<longrightarrow>
            fst (lru_get now k (lru_prunes ts (lru_set 0 k v c))) = None"
    using miss_after_maxAge [OF _ assms(2), of c now k ts v] by simp
  from built have b1: "lru_maxAge (compilerCache (new_cache_core opts appId orchestratorId)) = Some T"
    and b2: "maxCompilerCacheKeep (new_cache_core opts appId orchestratorId) = Some T"
    by simp_all
  show ?thesis
    by (intro conjI) (rule b1 b2 sweep swept hit miss)+
qed


theorem compilerCache_expiry_witness:
  "maxCompilerCacheKeep
     (new_cache_core
        \<lparr>compilerCacheSize = None, maxCompilerCacheKeepAlive = Some 5000,
         updateCompilerCacheKeepAlive = None, schemaVersion = False\<rparr>
        (\<lambda>c::string. ''acme'') (\<lambda>c. ''acme'')) = Some 5000 \<and>
   fst (lru_get 5001 ''acme''
          (lru_prunes []
             (lru_set 0 ''acme'' (7::nat)
                (new_compilerCache
                   \<lparr>compilerCacheSize = None, maxCompilerCacheKeepAlive = Some 5000,
                    updateCompilerCacheKeepAlive = None, schemaVersion = False\<rparr>)))) = None \<and>
   fst (lru_get 5001 ''acme''
          (lru_prunes [5000]
             (lru_set 0 ''acme'' (7::nat)
                (new_compilerCache
                   \<lparr>compilerCacheSize = None, maxCompilerCacheKeepAlive = Some 5000,
                    updateCompilerCacheKeepAlive = None, schemaVersion = False\<rparr>)))) = None"
proof -
  let ?opts = "\<lparr>compilerCacheSize = None, maxCompilerCacheKeepAlive = Some 5000,
                updateCompilerCacheKeepAlive = None, schemaVersion = False\<rparr>"
  have cfg: "maxCompilerCacheKeepAlive ?opts = Some 5000" and pos: "(0::nat) < 5000"
    by simp_all
  have age: "lru_maxAge (new_compilerCache ?opts :: nat lru) = Some 5000"
    by (simp add: new_compilerCache_def)
  from age
    compilerCache_expiry [OF cfg pos, where c = "new_compilerCache ?opts :: nat lru" and now = 5001
      and k = "''acme''" and v = "7::nat" and ts = "[]" and appId = "\<lambda>c::string. ''acme''"
      and orchestratorId = "\<lambda>c::string. ''acme''" and t = 0
      and st = "new_cache_core ?opts (\<lambda>c::string. ''acme'') (\<lambda>c. ''acme'')"]
    compilerCache_expiry [OF cfg pos, where c = "new_compilerCache ?opts :: nat lru" and now = 5001
      and k = "''acme''" and v = "7::nat" and ts = "[5000]" and appId = "\<lambda>c::string. ''acme''"
      and orchestratorId = "\<lambda>c::string. ''acme''" and t = 0
      and st = "new_cache_core ?opts (\<lambda>c::string. ''acme'') (\<lambda>c. ''acme'')"]
  show ?thesis by simp
qed

lemma lru_get_config [simp]:
  "lru_max (snd (lru_get now k c)) = lru_max c"
  "lru_maxAge (snd (lru_get now k c)) = lru_maxAge c"
  "lru_updateAgeOnGet (snd (lru_get now k c)) = lru_updateAgeOnGet c"
  by (simp_all add: lru_get_def split: option.splits prod.splits)

lemma lru_set_config [simp]:
  "lru_max (lru_set now k v c) = lru_max c"
  "lru_maxAge (lru_set now k v c) = lru_maxAge c"
  "lru_updateAgeOnGet (lru_set now k v c) = lru_updateAgeOnGet c"
  by (simp_all add: lru_set_def Let_def)

lemma core_step_config:
  "lru_max (compilerCache (core_step x st)) = lru_max (compilerCache st) \<and>
   lru_maxAge (compilerCache (core_step x st)) = lru_maxAge (compilerCache st) \<and>
   lru_updateAgeOnGet (compilerCache (core_step x st)) = lru_updateAgeOnGet (compilerCache st) \<and>
   contextToAppId (core_step x st) = contextToAppId st \<and>
   contextToOrchestratorId (core_step x st) = contextToOrchestratorId st"
  by (cases x)
     (simp_all add: getCompilerApi_def getOrchestratorApi_def sweep_tick_def
        resetInstanceState_def lru_reset_def lru_prune_def Let_def case_prod_beta
      split: option.splits)

lemma core_run_config:
  "lru_max (compilerCache (core_run xs st)) = lru_max (compilerCache st) \<and>
   lru_maxAge (compilerCache (core_run xs st)) = lru_maxAge (compilerCache st) \<and>
   lru_updateAgeOnGet (compilerCache (core_run xs st)) = lru_updateAgeOnGet (compilerCache st) \<and>
   contextToAppId (core_run xs st) = contextToAppId st \<and>
   contextToOrchestratorId (core_run xs st) = contextToOrchestratorId st"
proof (induction xs arbitrary: st)
  case Nil
  then show ?case by simp
next
  case (Cons x xs)
  from Cons.IH [of "core_step x st"] core_step_config [of x st]
  show ?case by simp
qed

lemma reachable_config:
  "lru_max (compilerCache (core_run xs (new_cache_core opts appId orchestratorId))) > 0 \<and>
   lru_maxAge (compilerCache (core_run xs (new_cache_core opts appId orchestratorId)))
     = maxCompilerCacheKeepAlive opts \<and>
   lru_updateAgeOnGet (compilerCache (core_run xs (new_cache_core opts appId orchestratorId)))
     = (updateCompilerCacheKeepAlive opts = Some True) \<and>
   contextToAppId (core_run xs (new_cache_core opts appId orchestratorId)) = appId \<and>
   contextToOrchestratorId (core_run xs (new_cache_core opts appId orchestratorId))
     = orchestratorId"
  using core_run_config [of xs "new_cache_core opts appId orchestratorId"]
  by (simp add: new_cache_core_def lru_max_positive) (simp add: new_compilerCache_def)

lemma lru_get_miss_same: "fst (lru_get now k c) = None \<Longrightarrow> snd (lru_get now k c) = c"
  by (cases "map_of (lru_entries c) k") (auto simp: lru_get_def split: if_splits)

lemma only_value_set: "only_value k v (lru_set now k v c)"
  by (auto simp: only_value_def lru_set_def Let_def dest: in_set_butlastD)

lemma only_value_set_other:
  "only_value k a c \<Longrightarrow> k' \<noteq> k \<Longrightarrow> only_value k a (lru_set now k' v c)"
  by (auto simp: only_value_def lru_set_def Let_def dest!: in_set_butlastD)

lemma only_value_get_other:
  "only_value k a c \<Longrightarrow> k' \<noteq> k \<Longrightarrow> only_value k a (snd (lru_get now k' c))"
  by (auto simp: only_value_def lru_get_def split: option.splits prod.splits if_splits)

lemma only_value_prune: "only_value k a c \<Longrightarrow> only_value k a (lru_prune now c)"
  by (simp add: only_value_def lru_prune_def)

lemma only_value_lookup:
  "only_value k a c \<Longrightarrow> map_of (lru_entries c) k = Some (w, s) \<Longrightarrow> w = a"
  by (auto simp: only_value_def dest!: map_of_SomeD)

lemma lru_get_fresh_entry:
  assumes "has_entry k c" "only_value k a c" "\<not> entry_expired now k c"
  shows "fst (lru_get now k c) = Some a"
    and "only_value k a (snd (lru_get now k c))"
proof -
  from assms(1) obtain w s where ent: "map_of (lru_entries c) k = Some (w, s)"
    by (auto simp: has_entry_def)
  from only_value_lookup [OF assms(2) ent] have w: "w = a" .
  from ent assms(3) have fresh: "\<not> lru_expired c now s"
    by (simp add: entry_expired_def)
  from ent w fresh show "fst (lru_get now k c) = Some a"
    by (simp add: lru_get_def)
  from ent w fresh show "only_value k a (snd (lru_get now k c))"
    by (simp add: lru_get_def only_value_def)
qed

lemma getCompilerApi_appId [simp]:
  "contextToAppId (snd (getCompilerApi now c st)) = contextToAppId st"
  by (simp add: getCompilerApi_def Let_def case_prod_beta split: option.splits)

lemma getCompilerApi_hit:
  assumes "fst (lru_get now (contextToAppId st c) (compilerCache st)) = Some a"
  shows "fst (getCompilerApi now c st) = a"
    and "nextObject (snd (getCompilerApi now c st)) = nextObject st"
    and "compilerCache (snd (getCompilerApi now c st))
           = snd (lru_get now (contextToAppId st c) (compilerCache st))"
  using assms by (simp_all add: getCompilerApi_def Let_def case_prod_beta)

lemma getCompilerApi_miss:
  assumes "fst (lru_get now (contextToAppId st c) (compilerCache st)) = None"
  shows "fst (getCompilerApi now c st) = nextObject st"
    and "nextObject (snd (getCompilerApi now c st)) = Suc (nextObject st)"
    and "compilerCache (snd (getCompilerApi now c st))
           = lru_set now (contextToAppId st c) (nextObject st) (compilerCache st)"
  using assms lru_get_miss_same [OF assms]
  by (simp_all add: getCompilerApi_def Let_def case_prod_beta)

text \<open>
  A lookup leaves the object it returns in the cache, under the key of its context, and
  no other object under that key.
\<close>

lemma getCompilerApi_stores:
  assumes "0 < lru_max (compilerCache st)"
  shows "\<exists>s. map_of (lru_entries (compilerCache (snd (getCompilerApi now c st))))
               (contextToAppId st c) = Some (fst (getCompilerApi now c st), s)"
    and "only_value (contextToAppId st c) (fst (getCompilerApi now c st))
           (compilerCache (snd (getCompilerApi now c st)))"
proof -
  let ?k = "contextToAppId st c"
  have "(\<exists>s. map_of (lru_entries (compilerCache (snd (getCompilerApi now c st)))) ?k
               = Some (fst (getCompilerApi now c st), s)) \<and>
        only_value ?k (fst (getCompilerApi now c st))
           (compilerCache (snd (getCompilerApi now c st)))"
  proof (cases "fst (lru_get now ?k (compilerCache st))")
    case None
    from getCompilerApi_miss [OF None] assms show ?thesis
      by (simp add: lru_set_front only_value_set)
  next
    case (Some a)
    from lru_get_hit_front [OF Some] obtain stamp where
      "lru_entries (snd (lru_get now ?k (compilerCache st)))
         = (?k, a, if lru_updateAgeOnGet (compilerCache st) then now else stamp)
             # filter (\<lambda>e. fst e \<noteq> ?k) (lru_entries (compilerCache st))"
      by blast
    with getCompilerApi_hit [OF Some] show ?thesis
      by (simp add: only_value_def)
  qed
  then show "\<exists>s. map_of (lru_entries (compilerCache (snd (getCompilerApi now c st))))
               (contextToAppId st c) = Some (fst (getCompilerApi now c st), s)"
    and "only_value (contextToAppId st c) (fst (getCompilerApi now c st))
           (compilerCache (snd (getCompilerApi now c st)))"
    by blast+
qed

text \<open>With keep-alive on read, the entry a lookup leaves carries the time of the lookup.\<close>

lemma getCompilerApi_stamp:
  assumes "0 < lru_max (compilerCache st)" "lru_updateAgeOnGet (compilerCache st)"
  shows "map_of (lru_entries (compilerCache (snd (getCompilerApi now c st))))
           (contextToAppId st c) = Some (fst (getCompilerApi now c st), now)"
proof (cases "fst (lru_get now (contextToAppId st c) (compilerCache st))")
  case None
  from getCompilerApi_miss [OF None] assms(1) show ?thesis
    by (simp add: lru_set_front)
next
  case (Some a)
  from lru_get_hit_front [OF Some] assms(2) obtain stamp where
    "lru_entries (snd (lru_get now (contextToAppId st c) (compilerCache st)))
       = (contextToAppId st c, a, now)
           # filter (\<lambda>e. fst e \<noteq> contextToAppId st c) (lru_entries (compilerCache st))"
    by auto
  with getCompilerApi_hit [OF Some] show ?thesis by simp
qed

lemma getCompilerApi_config [simp]:
  "lru_maxAge (compilerCache (snd (getCompilerApi now c st))) = lru_maxAge (compilerCache st)"
  using core_step_config [of "GetCompilerApi now c" st] by simp

lemma getCompilerApi_other_key:
  assumes "only_value k a (compilerCache st)" "contextToAppId st c \<noteq> k"
  shows "only_value k a (compilerCache (snd (getCompilerApi now c st)))"
proof (cases "fst (lru_get now (contextToAppId st c) (compilerCache st))")
  case None
  from getCompilerApi_miss(3) [OF None] assms show ?thesis
    by (simp add: only_value_set_other)
next
  case (Some b)
  from getCompilerApi_hit(3) [OF Some] assms show ?thesis
    by (simp add: only_value_get_other)
qed

lemma getCompilerApi_same_key:
  assumes "has_entry k (compilerCache st)" "only_value k a (compilerCache st)"
    "\<not> entry_expired now k (compilerCache st)" "contextToAppId st c = k"
  shows "fst (getCompilerApi now c st) = a"
    and "only_value k a (compilerCache (snd (getCompilerApi now c st)))"
proof -
  from lru_get_fresh_entry [OF assms(1-3)]
  have hit: "fst (lru_get now (contextToAppId st c) (compilerCache st)) = Some a"
    and keep: "only_value k a (snd (lru_get now (contextToAppId st c) (compilerCache st)))"
    using assms(4) by simp_all
  from getCompilerApi_hit(1) [OF hit] show "fst (getCompilerApi now c st) = a" .
  from getCompilerApi_hit(3) [OF hit] keep
  show "only_value k a (compilerCache (snd (getCompilerApi now c st)))" by simp
qed

lemma core_step_only_value:
  assumes "has_entry k (compilerCache st)" "only_value k a (compilerCache st)"
    "\<not> expired_at x k st"
  shows "only_value k a (compilerCache (core_step x st))"
proof (cases x)
  case (GetCompilerApi now c)
  show ?thesis
  proof (cases "contextToAppId st c = k")
    case True
    from assms(3) have "\<not> entry_expired now k (compilerCache st)"
      by (simp add: GetCompilerApi)
    from getCompilerApi_same_key(2) [OF assms(1,2) this True] show ?thesis
      by (simp add: GetCompilerApi)
  next
    case False
    from getCompilerApi_other_key [OF assms(2) False] show ?thesis
      by (simp add: GetCompilerApi)
  qed
next
  case (GetOrchestratorApi c)
  with assms(2) show ?thesis
    by (simp add: getOrchestratorApi_def Let_def split: option.splits)
next
  case (SweepTick now)
  with assms(2) show ?thesis
    by (simp add: sweep_tick_def only_value_prune split: option.splits)
next
  case ResetInstanceState
  then show ?thesis
    by (simp add: resetInstanceState_def lru_reset_def only_value_def)
qed

lemma core_run_undisturbed:
  assumes "has_entry k (compilerCache st)" "only_value k a (compilerCache st)"
    "undisturbed k xs t st"
  shows "has_entry k (compilerCache (core_run xs st)) \<and>
         only_value k a (compilerCache (core_run xs st)) \<and>
         \<not> entry_expired t k (compilerCache (core_run xs st))"
  using assms
proof (induction xs arbitrary: st)
  case Nil
  then show ?case by simp
next
  case (Cons x xs)
  from Cons.prems(3) have fresh: "\<not> expired_at x k st"
    and still: "has_entry k (compilerCache (core_step x st))"
    and rest: "undisturbed k xs t (core_step x st)"
    by simp_all
  from Cons.prems(1,2) fresh have "only_value k a (compilerCache (core_step x st))"
    by (rule core_step_only_value)
  from Cons.IH [OF still this rest] show ?case by simp
qed

lemma getCompilerApi_same:
  assumes "0 < lru_max (compilerCache st)"
    and "contextToAppId st c1 = contextToAppId st c2"
    and "undisturbed (contextToAppId st c1) xs t2 (snd (getCompilerApi t1 c1 st))"
  shows "fst (getCompilerApi t2 c2 (core_run xs (snd (getCompilerApi t1 c1 st))))
           = fst (getCompilerApi t1 c1 st)"
proof -
  let ?st1 = "snd (getCompilerApi t1 c1 st)"
  let ?st2 = "core_run xs ?st1"
  let ?k = "contextToAppId st c1"
  from getCompilerApi_stores(1) [OF assms(1), of t1 c1]
  have has: "has_entry ?k (compilerCache ?st1)" by (auto simp: has_entry_def)
  from getCompilerApi_stores(2) [OF assms(1)]
  have only: "only_value ?k (fst (getCompilerApi t1 c1 st)) (compilerCache ?st1)" .
  from core_run_undisturbed [OF has only assms(3)]
  have has2: "has_entry ?k (compilerCache ?st2)"
    and only2: "only_value ?k (fst (getCompilerApi t1 c1 st)) (compilerCache ?st2)"
    and fresh2: "\<not> entry_expired t2 ?k (compilerCache ?st2)"
    by blast+
  have "contextToAppId ?st2 = contextToAppId st"
    using core_run_config [of xs ?st1] by simp
  with assms(2) have key: "contextToAppId ?st2 c2 = ?k" by simp
  from has2 only2 fresh2 key show ?thesis by (rule getCompilerApi_same_key(1))
qed

lemma core_step_keeps_orchestrator:
  "orchestratorStorage st k = Some a \<Longrightarrow> x \<noteq> ResetInstanceState \<Longrightarrow>
     orchestratorStorage (core_step x st) k = Some a"
  by (cases x)
     (auto simp: getCompilerApi_def getOrchestratorApi_def sweep_tick_def Let_def case_prod_beta
       split: option.splits)

lemma core_run_keeps_orchestrator:
  "orchestratorStorage st k = Some a \<Longrightarrow> ResetInstanceState \<notin> set xs \<Longrightarrow>
     orchestratorStorage (core_run xs st) k = Some a"
proof (induction xs arbitrary: st)
  case Nil
  then show ?case by simp
next
  case (Cons x xs)
  from Cons.prems(2) have x: "x \<noteq> ResetInstanceState" and xs: "ResetInstanceState \<notin> set xs"
    by auto
  from Cons.prems(1) x have "orchestratorStorage (core_step x st) k = Some a"
    by (rule core_step_keeps_orchestrator)
  from Cons.IH [OF this xs] show ?case by simp
qed

lemma getOrchestratorApi_registered:
  "orchestratorStorage (snd (getOrchestratorApi c st)) (contextToOrchestratorId st c)
     = Some (fst (getOrchestratorApi c st))"
  by (simp add: getOrchestratorApi_def Let_def split: option.splits)

lemma getOrchestratorApi_same:
  assumes "contextToOrchestratorId st c1 = contextToOrchestratorId st c2"
    and "ResetInstanceState \<notin> set xs"
  shows "fst (getOrchestratorApi c2 (core_run xs (snd (getOrchestratorApi c1 st))))
           = fst (getOrchestratorApi c1 st)"
proof -
  let ?st1 = "snd (getOrchestratorApi c1 st)"
  let ?st2 = "core_run xs ?st1"
  have "orchestratorStorage ?st1 (contextToOrchestratorId st c1) = Some (fst (getOrchestratorApi c1 st))"
    by (rule getOrchestratorApi_registered)
  then have "orchestratorStorage ?st2 (contextToOrchestratorId st c1)
               = Some (fst (getOrchestratorApi c1 st))"
    using assms(2) by (rule core_run_keeps_orchestrator)
  moreover have "contextToOrchestratorId ?st2 = contextToOrchestratorId st"
    using core_run_config [of xs ?st1] by (simp add: getOrchestratorApi_def Let_def split: option.splits)
  ultimately have "orchestratorStorage ?st2 (contextToOrchestratorId ?st2 c2)
               = Some (fst (getOrchestratorApi c1 st))"
    using assms(1) by simp
  then show ?thesis by (simp add: getOrchestratorApi_def Let_def)
qed

lemmas core_defs =
  new_cache_core_def new_compilerCache_def getCompilerApi_def getOrchestratorApi_def
  sweep_tick_def resetInstanceState_def lru_reset_def lru_get_def lru_set_def lru_prune_def
  lru_expired_def entry_expired_def has_entry_def Let_def

text \<open>
  C8, in every state \<open>st\<close> that an instance reaches from its constructor by lookups, sweeps
  and resets. A call of \<open>getCompilerApi\<close> leaves the \<open>CompilerApi\<close> object it returns stored
  in the cache under the key of its context. Two contexts that the resolver
  \<open>contextToAppId\<close> maps to the same key get the same object from two calls of
  \<open>getCompilerApi\<close>, whatever operations lie between them, provided the entry of the key
  is neither expired when one of those operations or the second call looks at the cache
  nor gone from the cache after one of them; for two calls in a row it is enough that no
  max-age is configured, or that keep-alive on read is configured and the second call
  comes within the max-age of the first; a lookup hit returns the stored object and
  creates nothing, a miss creates one object and stores it. Two contexts that
  \<open>contextToOrchestratorId\<close> maps to the same key get the same \<open>OrchestratorApi\<close> from two
  calls of \<open>getOrchestratorApi\<close>, whatever operations other than a reset lie between
  them; a registered instance is returned with the state untouched, and an instance is
  created and registered only when the key has none.
\<close>

theorem same_key_same_instance:
  assumes "st = core_run pre (new_cache_core opts appId orchestratorId)"
  shows
  "(\<exists>s. map_of (lru_entries (compilerCache (snd (getCompilerApi t1 c1 st)))) (appId c1)
          = Some (fst (getCompilerApi t1 c1 st), s)) \<and>
   (appId c1 = appId c2 \<and> undisturbed (appId c1) xs t2 (snd (getCompilerApi t1 c1 st)) \<longrightarrow>
      fst (getCompilerApi t2 c2 (core_run xs (snd (getCompilerApi t1 c1 st))))
        = fst (getCompilerApi t1 c1 st)) \<and>
   (appId c1 = appId c2 \<and> maxCompilerCacheKeepAlive opts = None \<longrightarrow>
      fst (getCompilerApi t2 c2 (snd (getCompilerApi t1 c1 st))) = fst (getCompilerApi t1 c1 st)) \<and>
   (appId c1 = appId c2 \<and> maxCompilerCacheKeepAlive opts = Some T \<and>
    updateCompilerCacheKeepAlive opts = Some True \<and> t2 \<le> t1 + T \<longrightarrow>
      fst (getCompilerApi t2 c2 (snd (getCompilerApi t1 c1 st))) = fst (getCompilerApi t1 c1 st)) \<and>
   (fst (lru_get t1 (appId c1) (compilerCache st)) = Some a \<longrightarrow>
      fst (getCompilerApi t1 c1 st) = a \<and>
      nextObject (snd (getCompilerApi t1 c1 st)) = nextObject st) \<and>
   (fst (lru_get t1 (appId c1) (compilerCache st)) = None \<longrightarrow>
      fst (getCompilerApi t1 c1 st) = nextObject st \<and>
      nextObject (snd (getCompilerApi t1 c1 st)) = Suc (nextObject st) \<and>
      map_of (lru_entries (compilerCache (snd (getCompilerApi t1 c1 st)))) (appId c1)
        = Some (nextObject st, t1)) \<and>
   (orchestratorId c1 = orchestratorId c2 \<and> ResetInstanceState \<notin> set xs \<longrightarrow>
      fst (getOrchestratorApi c2 (core_run xs (snd (getOrchestratorApi c1 st))))
        = fst (getOrchestratorApi c1 st)) \<and>
   (orchestratorStorage st (orchestratorId c1) = Some b \<longrightarrow>
      getOrchestratorApi c1 st = (b, st)) \<and>
   (orchestratorStorage st (orchestratorId c1) = None \<longrightarrow>
      fst (getOrchestratorApi c1 st) = nextObject st \<and>
      orchestratorStorage (snd (getOrchestratorApi c1 st)) (orchestratorId c1)
        = Some (nextObject st))"
proof -
  from reachable_config [of pre opts appId orchestratorId] assms
  have pos: "0 < lru_max (compilerCache st)"
    and age: "lru_maxAge (compilerCache st) = maxCompilerCacheKeepAlive opts"
    and upd: "lru_updateAgeOnGet (compilerCache st) = (updateCompilerCacheKeepAlive opts = Some True)"
    and app: "contextToAppId st = appId"
    and orch: "contextToOrchestratorId st = orchestratorId"
    by simp_all
  have next_call: "fst (getCompilerApi t2 c2 (snd (getCompilerApi t1 c1 st)))
        = fst (getCompilerApi t1 c1 st)"
    if "appId c1 = appId c2"
      "\<not> entry_expired t2 (appId c1) (compilerCache (snd (getCompilerApi t1 c1 st)))"
  proof -
    from that have "contextToAppId st c1 = contextToAppId st c2"
      and "undisturbed (contextToAppId st c1) [] t2 (snd (getCompilerApi t1 c1 st))"
      unfolding app by simp_all
    from getCompilerApi_same [OF pos this] show ?thesis by simp
  qed
  show ?thesis
  proof (intro conjI impI)
    assume h: "appId c1 = appId c2 \<and> maxCompilerCacheKeepAlive opts = None"
    then have "\<not> entry_expired t2 (appId c1) (compilerCache (snd (getCompilerApi t1 c1 st)))"
      using age by (simp add: entry_expired_def lru_expired_def split: option.splits)
    with h show "fst (getCompilerApi t2 c2 (snd (getCompilerApi t1 c1 st)))
        = fst (getCompilerApi t1 c1 st)"
      by (simp add: next_call)
  next
    assume h: "appId c1 = appId c2 \<and> maxCompilerCacheKeepAlive opts = Some T \<and>
      updateCompilerCacheKeepAlive opts = Some True \<and> t2 \<le> t1 + T"
    then have "lru_updateAgeOnGet (compilerCache st)" using upd by simp
    from getCompilerApi_stamp [OF pos this, of t1 c1] h age
    have "\<not> entry_expired t2 (appId c1) (compilerCache (snd (getCompilerApi t1 c1 st)))"
      unfolding app by (simp add: entry_expired_def lru_expired_def)
    with h show "fst (getCompilerApi t2 c2 (snd (getCompilerApi t1 c1 st)))
        = fst (getCompilerApi t1 c1 st)"
      by (simp add: next_call)
  next
    from getCompilerApi_stores(1) [OF pos, of t1 c1] app
    show "\<exists>s. map_of (lru_entries (compilerCache (snd (getCompilerApi t1 c1 st)))) (appId c1)
          = Some (fst (getCompilerApi t1 c1 st), s)"
      by simp
  next
    assume "appId c1 = appId c2 \<and> undisturbed (appId c1) xs t2 (snd (getCompilerApi t1 c1 st))"
    then have key: "contextToAppId st c1 = contextToAppId st c2"
      and und: "undisturbed (contextToAppId st c1) xs t2 (snd (getCompilerApi t1 c1 st))"
      unfolding app by blast+
    from pos key und
    show "fst (getCompilerApi t2 c2 (core_run xs (snd (getCompilerApi t1 c1 st))))
        = fst (getCompilerApi t1 c1 st)"
      by (rule getCompilerApi_same)
  next
    assume "fst (lru_get t1 (appId c1) (compilerCache st)) = Some a"
    then have hit: "fst (lru_get t1 (contextToAppId st c1) (compilerCache st)) = Some a"
      using app by simp
    from getCompilerApi_hit [OF hit]
    show "fst (getCompilerApi t1 c1 st) = a"
      and "nextObject (snd (getCompilerApi t1 c1 st)) = nextObject st"
      by simp_all
  next
    assume "fst (lru_get t1 (appId c1) (compilerCache st)) = None"
    then have miss: "fst (lru_get t1 (contextToAppId st c1) (compilerCache st)) = None"
      using app by simp
    from getCompilerApi_miss [OF miss]
    show "fst (getCompilerApi t1 c1 st) = nextObject st"
      and "nextObject (snd (getCompilerApi t1 c1 st)) = Suc (nextObject st)"
      by simp_all
    from getCompilerApi_miss(3) [OF miss] pos app
    show "map_of (lru_entries (compilerCache (snd (getCompilerApi t1 c1 st)))) (appId c1)
        = Some (nextObject st, t1)"
      by (simp add: lru_set_front)
  next
    assume "orchestratorId c1 = orchestratorId c2 \<and> ResetInstanceState \<notin> set xs"
    then have "contextToOrchestratorId st c1 = contextToOrchestratorId st c2"
      and "ResetInstanceState \<notin> set xs"
      unfolding orch by blast+
    then show "fst (getOrchestratorApi c2 (core_run xs (snd (getOrchestratorApi c1 st))))
        = fst (getOrchestratorApi c1 st)"
      by (rule getOrchestratorApi_same)
  next
    assume "orchestratorStorage st (orchestratorId c1) = Some b"
    then show "getOrchestratorApi c1 st = (b, st)"
      using orch by (simp add: getOrchestratorApi_def)
  next
    assume none: "orchestratorStorage st (orchestratorId c1) = None"
    then show "fst (getOrchestratorApi c1 st) = nextObject st"
      using orch by (simp add: getOrchestratorApi_def Let_def)
    from none orch
    show "orchestratorStorage (snd (getOrchestratorApi c1 st)) (orchestratorId c1)
        = Some (nextObject st)"
      by (simp add: getOrchestratorApi_def Let_def)
  qed
qed

theorem same_key_same_instance_witness:
  "fst (getCompilerApi 1000 ''request A''
     (core_run [GetCompilerApi 500 ''request C'']
       (new_cache_core
         \<lparr>compilerCacheSize = None, maxCompilerCacheKeepAlive = Some 5000,
          updateCompilerCacheKeepAlive = None, schemaVersion = False\<rparr>
         (\<lambda>c. if c = ''request C'' then ''globex'' else ''acme'')
         (\<lambda>c. if c = ''request C'' then ''globex'' else ''acme'')))) = 1 \<and>
   undisturbed ''acme''
     [GetCompilerApi 1500 ''request C'', SweepTick 1800, GetOrchestratorApi ''request C''] 2000
     (snd (getCompilerApi 1000 ''request A''
     (core_run [GetCompilerApi 500 ''request C'']
       (new_cache_core
         \<lparr>compilerCacheSize = None, maxCompilerCacheKeepAlive = Some 5000,
          updateCompilerCacheKeepAlive = None, schemaVersion = False\<rparr>
         (\<lambda>c. if c = ''request C'' then ''globex'' else ''acme'')
         (\<lambda>c. if c = ''request C'' then ''globex'' else ''acme''))))) \<and>
   fst (getCompilerApi 2000 ''request B''
     (core_run [GetCompilerApi 1500 ''request C'', SweepTick 1800, GetOrchestratorApi ''request C'']
       (snd (getCompilerApi 1000 ''request A''
     (core_run [GetCompilerApi 500 ''request C'']
       (new_cache_core
         \<lparr>compilerCacheSize = None, maxCompilerCacheKeepAlive = Some 5000,
          updateCompilerCacheKeepAlive = None, schemaVersion = False\<rparr>
         (\<lambda>c. if c = ''request C'' then ''globex'' else ''acme'')
         (\<lambda>c. if c = ''request C'' then ''globex'' else ''acme''))))))) = 1 \<and>
   fst (getOrchestratorApi ''request A''
     (core_run [GetCompilerApi 500 ''request C'']
       (new_cache_core
         \<lparr>compilerCacheSize = None, maxCompilerCacheKeepAlive = Some 5000,
          updateCompilerCacheKeepAlive = None, schemaVersion = False\<rparr>
         (\<lambda>c. if c = ''request C'' then ''globex'' else ''acme'')
         (\<lambda>c. if c = ''request C'' then ''globex'' else ''acme'')))) = 1 \<and>
   fst (getOrchestratorApi ''request B''
     (core_run [GetCompilerApi 1500 ''request C'', SweepTick 1800, GetOrchestratorApi ''request C'']
       (snd (getOrchestratorApi ''request A''
     (core_run [GetCompilerApi 500 ''request C'']
       (new_cache_core
         \<lparr>compilerCacheSize = None, maxCompilerCacheKeepAlive = Some 5000,
          updateCompilerCacheKeepAlive = None, schemaVersion = False\<rparr>
         (\<lambda>c. if c = ''request C'' then ''globex'' else ''acme'')
         (\<lambda>c. if c = ''request C'' then ''globex'' else ''acme''))))))) = 1 \<and>
   fst (getCompilerApi 6000 ''request B''
     (snd (getCompilerApi 1000 ''request A''
       (core_run []
         (new_cache_core
           \<lparr>compilerCacheSize = None, maxCompilerCacheKeepAlive = Some 5000,
            updateCompilerCacheKeepAlive = Some True, schemaVersion = False\<rparr>
           (\<lambda>c. if c = ''request C'' then ''globex'' else ''acme'')
           (\<lambda>c. if c = ''request C'' then ''globex'' else ''acme'')))))) = 0"
proof -
  let ?opts = "\<lparr>compilerCacheSize = None, maxCompilerCacheKeepAlive = Some 5000,
          updateCompilerCacheKeepAlive = None, schemaVersion = False\<rparr>"
  let ?keep = "\<lparr>compilerCacheSize = None, maxCompilerCacheKeepAlive = Some 5000,
          updateCompilerCacheKeepAlive = Some True, schemaVersion = False\<rparr>"
  let ?key = "(\<lambda>c. if c = ''request C'' then ''globex'' else ''acme'')"
  let ?st = "core_run [GetCompilerApi 500 ''request C''] (new_cache_core ?opts ?key ?key)"
  let ?st' = "core_run [] (new_cache_core ?keep ?key ?key) :: string cache_core"
  let ?xs = "[GetCompilerApi 1500 ''request C'', SweepTick 1800, GetOrchestratorApi ''request C'']"
  have nxt: "nextObject ?st = 1"
    and reg: "orchestratorStorage ?st (?key ''request A'') = None"
    and miss: "fst (lru_get 1000 (?key ''request A'') (compilerCache ?st)) = None"
    by (simp_all add: core_defs)
  have und: "undisturbed ''acme'' ?xs 2000 (snd (getCompilerApi 1000 ''request A'' ?st))"
    by (simp add: core_defs)
  have miss': "fst (lru_get 1000 (?key ''request A'') (compilerCache ?st')) = None"
    and nxt': "nextObject ?st' = 0"
    by (simp_all add: core_defs)
  from same_key_same_instance
         [where st = ?st and pre = "[GetCompilerApi 500 ''request C'']" and opts = ?opts
            and appId = ?key and orchestratorId = ?key and ?c1.0 = "''request A''"
            and ?c2.0 = "''request B''" and ?t1.0 = 1000 and ?t2.0 = 2000 and xs = ?xs
            and a = 0 and b = 0 and T = 5000, OF refl]
    miss und nxt reg
  have first: "fst (getCompilerApi 1000 ''request A'' ?st) = 1 \<and>
    fst (getCompilerApi 2000 ''request B''
      (core_run ?xs (snd (getCompilerApi 1000 ''request A'' ?st)))) = 1 \<and>
    fst (getOrchestratorApi ''request A'' ?st) = 1 \<and>
    fst (getOrchestratorApi ''request B''
      (core_run ?xs (snd (getOrchestratorApi ''request A'' ?st)))) = 1"
    by simp
  from same_key_same_instance
         [where st = ?st' and pre = "[]" and opts = ?keep
            and appId = ?key and orchestratorId = ?key and ?c1.0 = "''request A''"
            and ?c2.0 = "''request B''" and ?t1.0 = 1000 and ?t2.0 = 6000 and xs = "[]"
            and a = 0 and b = 0 and T = 5000, OF refl]
    miss' nxt'
  have second: "fst (getCompilerApi 6000 ''request B''
      (snd (getCompilerApi 1000 ''request A'' ?st'))) = 0"
    by simp
  from first und second show ?thesis by simp
qed

text \<open>
  The two provisos are needed. With room for one entry, a lookup for another key between
  the two calls evicts the entry and the second call creates a new \<open>CompilerApi\<close>; and
  after a reset the second call of \<open>getOrchestratorApi\<close> creates a new \<open>OrchestratorApi\<close>.
\<close>

lemma disturbance_gives_new_instance:
  "fst (getCompilerApi 1000 ''request A''
     (core_run [GetCompilerApi 500 ''request C'']
       (new_cache_core
         \<lparr>compilerCacheSize = Some 1, maxCompilerCacheKeepAlive = Some 5000,
          updateCompilerCacheKeepAlive = None, schemaVersion = False\<rparr>
         (\<lambda>c. if c = ''request C'' then ''globex'' else ''acme'')
         (\<lambda>c. if c = ''request C'' then ''globex'' else ''acme'')))) = 1 \<and>
   fst (getCompilerApi 2000 ''request B''
     (core_run [GetCompilerApi 1500 ''request C'']
       (snd (getCompilerApi 1000 ''request A''
     (core_run [GetCompilerApi 500 ''request C'']
       (new_cache_core
         \<lparr>compilerCacheSize = Some 1, maxCompilerCacheKeepAlive = Some 5000,
          updateCompilerCacheKeepAlive = None, schemaVersion = False\<rparr>
         (\<lambda>c. if c = ''request C'' then ''globex'' else ''acme'')
         (\<lambda>c. if c = ''request C'' then ''globex'' else ''acme''))))))) = 3 \<and>
   fst (getOrchestratorApi ''request A''
     (core_run [GetCompilerApi 500 ''request C'']
       (new_cache_core
         \<lparr>compilerCacheSize = Some 1, maxCompilerCacheKeepAlive = Some 5000,
          updateCompilerCacheKeepAlive = None, schemaVersion = False\<rparr>
         (\<lambda>c. if c = ''request C'' then ''globex'' else ''acme'')
         (\<lambda>c. if c = ''request C'' then ''globex'' else ''acme'')))) = 1 \<and>
   fst (getOrchestratorApi ''request B''
     (core_run [ResetInstanceState]
       (snd (getOrchestratorApi ''request A''
     (core_run [GetCompilerApi 500 ''request C'']
       (new_cache_core
         \<lparr>compilerCacheSize = Some 1, maxCompilerCacheKeepAlive = Some 5000,
          updateCompilerCacheKeepAlive = None, schemaVersion = False\<rparr>
         (\<lambda>c. if c = ''request C'' then ''globex'' else ''acme'')
         (\<lambda>c. if c = ''request C'' then ''globex'' else ''acme''))))))) = 2"
  by (simp add: core_defs)


subsection \<open>Properties of the scheduled-refresh timer\<close>

lemma interval_kept [simp]:
  "interval (snd (interval_tick now iv)) = interval iv"
  "onDuplicatedExecution (snd (interval_tick now iv)) = onDuplicatedExecution iv"
  "onDuplicatedStateResolved (snd (interval_tick now iv)) = onDuplicatedStateResolved iv"
  "interval (snd (interval_finished threshold now iv)) = interval iv"
  "onDuplicatedExecution (snd (interval_finished threshold now iv)) = onDuplicatedExecution iv"
  "onDuplicatedStateResolved (snd (interval_finished threshold now iv))
     = onDuplicatedStateResolved iv"
  by (simp_all add: interval_tick_def interval_finished_def split: option.splits)

lemma detect_nonzero: "detectScheduledRefreshTimer t = Some ms \<Longrightarrow> ms \<noteq> 0"
  by (auto simp: detectScheduledRefreshTimer_def split: jsval.splits if_splits)

lemma decimal_small:
  "decimal (Suc 0) = ''1''"
  "decimal (Suc (Suc 0)) = ''2''"
  by (simp_all add: decimal.simps digit_char_def)

lemma refresh_ok_start: "refresh_ok st \<Longrightarrow> refresh_ok (snd (startScheduledRefreshTimer env st))"
  by (simp add: refresh_ok_def startScheduledRefreshTimer_def createCancelableInterval_def
      split: option.splits)

lemma refresh_ok_reload: "refresh_ok st \<Longrightarrow> refresh_ok (reloadEnvVariables env st)"
  by (simp add: refresh_ok_def reloadEnvVariables_def split: option.splits)

lemma refresh_ok_deliver:
  "refresh_ok st \<Longrightarrow> scheduledRefreshTimerInterval st = Some iv \<Longrightarrow>
     interval (snd r) = interval iv \<Longrightarrow> refresh_ok (deliver r st)"
  by (simp add: refresh_ok_def deliver_def)

lemma refresh_ok_step: "refresh_ok st \<Longrightarrow> refresh_ok (refresh_step env ev st)"
  by (cases ev)
     (simp_all add: refresh_ok_start refresh_ok_reload refresh_ok_deliver split: option.splits)

lemma refresh_ok_run: "refresh_ok st \<Longrightarrow> refresh_ok (refresh_run env evs st)"
proof (induction evs arbitrary: st)
  case Nil
  then show ?case by simp
next
  case (Cons ev evs)
  from Cons.prems have "refresh_ok (refresh_step env ev st)" by (rule refresh_ok_step)
  then show ?case using Cons.IH by simp
qed

lemma refresh_ok_new: "refresh_ok (new_refresh_core env d t)"
  unfolding new_refresh_core_def
  by (rule refresh_ok_start) (simp add: refresh_ok_def)











lemmas refresh_defs = new_refresh_core_def startScheduledRefreshTimer_def isReadyForQueryProcessing_def
     js_or_def env_value_def detectScheduledRefreshTimer_def createCancelableInterval_def
     deliver_def interval_tick_def interval_finished_def

text \<open>
  What \<open>startScheduledRefreshTimer\<close> does on an instance that is ready, has no interval
  and has a timer configured, and what the interval it creates logs afterwards.
\<close>

lemma start_creates:
  assumes "isReadyForQueryProcessing env s" "scheduledRefreshTimerInterval s = None"
    "detectScheduledRefreshTimer (scheduledRefreshTimer s) = Some ms"
  shows "fst (startScheduledRefreshTimer env s) = (True, None)"
    and "map_option interval (scheduledRefreshTimerInterval (snd (startScheduledRefreshTimer env s)))
           = Some ms"
    and "intervalsCreated (snd (startScheduledRefreshTimer env s)) = Suc (intervalsCreated s)"
    and "logged (refresh_run env [Tick a, Tick b] (snd (startScheduledRefreshTimer env s)))
        = logged s @
          [(''Refresh Scheduler Interval Error'',
            [(''error'',
              ''Previous interval #1 was not finished with '' @ number_text ms @ '' interval'')])]"
    and "longExecutionThreshold env < c - a \<Longrightarrow>
      logged (refresh_run env [Tick a, Tick b, Finished c] (snd (startScheduledRefreshTimer env s)))
        = logged s @
          [(''Refresh Scheduler Interval Error'',
            [(''error'',
              ''Previous interval #1 was not finished with '' @ number_text ms @ '' interval'')]),
           (''Refresh Scheduler Long Execution'',
            [(''warning'', ''Interval #1 finished after '' @ formatDuration env (c - a))])]"
    and "logged (refresh_run env [Tick a, Finished c, Tick b]
           (snd (startScheduledRefreshTimer env s))) = logged s"
    and "logged (refresh_run env [Tick a, Finished c, Tick b, Tick b']
           (snd (startScheduledRefreshTimer env s)))
        = logged s @
          [(''Refresh Scheduler Interval Error'',
            [(''error'',
              ''Previous interval #2 was not finished with '' @ number_text ms @ '' interval'')])]"
  using assms detect_nonzero [OF assms(3)]
  by (simp_all add: startScheduledRefreshTimer_def createCancelableInterval_def deliver_def
        interval_tick_def interval_finished_def decimal_small)



text \<open>
  C10, as the code has it. In every state \<open>st\<close> that an instance reaches from its
  constructor (further calls of \<open>startScheduledRefreshTimer\<close> and reloads of the options,
  under whatever value the environment variable has at each of them, periods elapsing,
  refreshes completing), and for a call of \<open>startScheduledRefreshTimer\<close> under any
  environment: if the instance is ready for query processing and an interval already
  exists, the call returns \<open>[true, null]\<close> and leaves the instance as it is; if the
  instance is not ready it returns \<open>[false, reason]\<close> and leaves the instance as it is,
  whether an interval exists or not; if it is ready and no timer is configured it
  returns \<open>[false, reason]\<close> likewise, and no interval exists; if it is ready, has a
  timer configured and no interval, it returns \<open>[true, null]\<close> and creates the interval;
  and \<open>createCancelableInterval\<close> has been called at most once, before and after the call,
  never again once an interval exists.
\<close>

theorem startScheduledRefreshTimer_idempotent:
  assumes "st = refresh_run env evs (new_refresh_core env0 d t)"
  shows
  "(isReadyForQueryProcessing env' st \<and> scheduledRefreshTimerInterval st \<noteq> None \<longrightarrow>
      startScheduledRefreshTimer env' st = ((True, None), st)) \<and>
   (\<not> isReadyForQueryProcessing env' st \<longrightarrow>
      startScheduledRefreshTimer env' st = ((False, Some not_ready_reason), st)) \<and>
   (isReadyForQueryProcessing env' st \<and>
    detectScheduledRefreshTimer (scheduledRefreshTimer st) = None \<longrightarrow>
      startScheduledRefreshTimer env' st = ((False, Some no_timer_reason), st) \<and>
      scheduledRefreshTimerInterval st = None) \<and>
   (isReadyForQueryProcessing env' st \<and> scheduledRefreshTimerInterval st = None \<and>
    detectScheduledRefreshTimer (scheduledRefreshTimer st) = Some ms \<longrightarrow>
      fst (startScheduledRefreshTimer env' st) = (True, None) \<and>
      map_option interval (scheduledRefreshTimerInterval (snd (startScheduledRefreshTimer env' st)))
        = Some ms \<and>
      intervalsCreated (snd (startScheduledRefreshTimer env' st)) = 1) \<and>
   (scheduledRefreshTimerInterval st \<noteq> None \<longrightarrow>
      snd (startScheduledRefreshTimer env' st) = st \<and> intervalsCreated st = 1) \<and>
   intervalsCreated st \<le> 1 \<and>
   intervalsCreated (snd (startScheduledRefreshTimer env' st)) \<le> 1"
proof -
  have ok: "refresh_ok st"
    unfolding assms by (rule refresh_ok_run) (rule refresh_ok_new)
  then have ok': "refresh_ok (snd (startScheduledRefreshTimer env' st))"
    by (rule refresh_ok_start)
  have le: "intervalsCreated s \<le> 1" if "refresh_ok s" for s
    using that by (simp add: refresh_ok_def split: option.splits)
  have inv: "intervalsCreated st = 1 \<and>
             detectScheduledRefreshTimer (scheduledRefreshTimer st) \<noteq> None"
    if "scheduledRefreshTimerInterval st \<noteq> None"
    using ok that by (cases "scheduledRefreshTimerInterval st") (simp_all add: refresh_ok_def)
  have zero: "intervalsCreated st = 0" if "scheduledRefreshTimerInterval st = None"
    using ok that by (simp add: refresh_ok_def)
  have again: "startScheduledRefreshTimer env' st = ((True, None), st)"
    if "isReadyForQueryProcessing env' st \<and> scheduledRefreshTimerInterval st \<noteq> None"
    using that by (simp add: startScheduledRefreshTimer_def)
  have unready: "startScheduledRefreshTimer env' st = ((False, Some not_ready_reason), st)"
    if "\<not> isReadyForQueryProcessing env' st"
    using that by (simp add: startScheduledRefreshTimer_def)
  have none2: "scheduledRefreshTimerInterval st = None"
    if "detectScheduledRefreshTimer (scheduledRefreshTimer st) = None"
    using inv that by (cases "scheduledRefreshTimerInterval st") simp_all
  have untimed: "startScheduledRefreshTimer env' st = ((False, Some no_timer_reason), st) \<and>
      scheduledRefreshTimerInterval st = None"
    if "isReadyForQueryProcessing env' st \<and>
        detectScheduledRefreshTimer (scheduledRefreshTimer st) = None"
    using none2 that by (simp add: startScheduledRefreshTimer_def)
  have creates: "fst (startScheduledRefreshTimer env' st) = (True, None) \<and>
      map_option interval (scheduledRefreshTimerInterval (snd (startScheduledRefreshTimer env' st)))
        = Some ms \<and>
      intervalsCreated (snd (startScheduledRefreshTimer env' st)) = 1"
    if h: "isReadyForQueryProcessing env' st \<and> scheduledRefreshTimerInterval st = None \<and>
        detectScheduledRefreshTimer (scheduledRefreshTimer st) = Some ms"
  proof -
    from h have r: "isReadyForQueryProcessing env' st"
      and n: "scheduledRefreshTimerInterval st = None"
      and m: "detectScheduledRefreshTimer (scheduledRefreshTimer st) = Some ms"
      by blast+
    from start_creates(1-3) [OF r n m] zero [OF n] show ?thesis by simp
  qed
  have kept: "snd (startScheduledRefreshTimer env' st) = st \<and> intervalsCreated st = 1"
    if "scheduledRefreshTimerInterval st \<noteq> None"
    using that inv [OF that] by (simp add: startScheduledRefreshTimer_def)
  show ?thesis
    using again unready untimed creates kept le [OF ok] le [OF ok'] by blast
qed

theorem startScheduledRefreshTimer_idempotent_witness:
  "fst (startScheduledRefreshTimer
          \<lparr>CUBEJS_DB_TYPE = Some ''postgres'', formatDuration = decimal,
           longExecutionThreshold = 0\<rparr>
          (refresh_run
             \<lparr>CUBEJS_DB_TYPE = None, formatDuration = decimal, longExecutionThreshold = 0\<rparr>
             [Start (Some ''postgres''), Tick 0]
             (new_refresh_core
                \<lparr>CUBEJS_DB_TYPE = Some ''postgres'', formatDuration = decimal,
                 longExecutionThreshold = 0\<rparr> JUndefined (JBool True))))
     = (True, None) \<and>
   intervalsCreated
     (snd (startScheduledRefreshTimer
          \<lparr>CUBEJS_DB_TYPE = Some ''postgres'', formatDuration = decimal,
           longExecutionThreshold = 0\<rparr>
          (refresh_run
             \<lparr>CUBEJS_DB_TYPE = None, formatDuration = decimal, longExecutionThreshold = 0\<rparr>
             [Start (Some ''postgres''), Tick 0]
             (new_refresh_core
                \<lparr>CUBEJS_DB_TYPE = Some ''postgres'', formatDuration = decimal,
                 longExecutionThreshold = 0\<rparr> JUndefined (JBool True))))) = 1 \<and>
   fst (startScheduledRefreshTimer
          \<lparr>CUBEJS_DB_TYPE = None, formatDuration = decimal, longExecutionThreshold = 0\<rparr>
          (refresh_run
             \<lparr>CUBEJS_DB_TYPE = None, formatDuration = decimal, longExecutionThreshold = 0\<rparr> []
             (new_refresh_core
                \<lparr>CUBEJS_DB_TYPE = None, formatDuration = decimal,
                 longExecutionThreshold = 0\<rparr> JUndefined (JBool True))))
     = (False, Some not_ready_reason) \<and>
   fst (startScheduledRefreshTimer
          \<lparr>CUBEJS_DB_TYPE = Some ''postgres'', formatDuration = decimal,
           longExecutionThreshold = 0\<rparr>
          (refresh_run
             \<lparr>CUBEJS_DB_TYPE = None, formatDuration = decimal, longExecutionThreshold = 0\<rparr> []
             (new_refresh_core
                \<lparr>CUBEJS_DB_TYPE = None, formatDuration = decimal,
                 longExecutionThreshold = 0\<rparr> JUndefined (JBool True))))
     = (True, None) \<and>
   fst (startScheduledRefreshTimer
          \<lparr>CUBEJS_DB_TYPE = Some ''postgres'', formatDuration = decimal,
           longExecutionThreshold = 0\<rparr>
          (refresh_run
             \<lparr>CUBEJS_DB_TYPE = None, formatDuration = decimal, longExecutionThreshold = 0\<rparr> []
             (new_refresh_core
                \<lparr>CUBEJS_DB_TYPE = Some ''postgres'', formatDuration = decimal,
                 longExecutionThreshold = 0\<rparr> JUndefined JUndefined)))
     = (False, Some no_timer_reason)"
proof -
  let ?env = "\<lparr>CUBEJS_DB_TYPE = Some ''postgres'', formatDuration = decimal,
               longExecutionThreshold = 0\<rparr>"
  let ?bare = "\<lparr>CUBEJS_DB_TYPE = None, formatDuration = decimal, longExecutionThreshold = 0\<rparr>"
  let ?a = "refresh_run ?bare [Start (Some ''postgres''), Tick 0]
              (new_refresh_core ?env JUndefined (JBool True))"
  let ?b = "refresh_run ?bare [] (new_refresh_core ?bare JUndefined (JBool True))"
  let ?c = "refresh_run ?bare [] (new_refresh_core ?env JUndefined JUndefined)"
  have a: "isReadyForQueryProcessing ?env ?a \<and> scheduledRefreshTimerInterval ?a \<noteq> None"
    by (simp add: refresh_defs)
  have b: "\<not> isReadyForQueryProcessing ?bare ?b"
    "isReadyForQueryProcessing ?env ?b \<and> scheduledRefreshTimerInterval ?b = None \<and>
     detectScheduledRefreshTimer (scheduledRefreshTimer ?b) = Some 30000"
    by (simp_all add: refresh_defs)
  have c: "isReadyForQueryProcessing ?env ?c \<and>
     detectScheduledRefreshTimer (scheduledRefreshTimer ?c) = None"
    by (simp add: refresh_defs)
  from a
    startScheduledRefreshTimer_idempotent
      [where st = ?a and env = ?bare and evs = "[Start (Some ''postgres''), Tick 0]"
         and ?env0.0 = ?env and d = JUndefined and t = "JBool True" and env' = ?env
         and ms = 30000, OF refl]
  have 1: "fst (startScheduledRefreshTimer ?env ?a) = (True, None) \<and>
           intervalsCreated (snd (startScheduledRefreshTimer ?env ?a)) = 1"
    by simp
  from b(1)
    startScheduledRefreshTimer_idempotent
      [where st = ?b and env = ?bare and evs = "[]"
         and ?env0.0 = ?bare and d = JUndefined and t = "JBool True" and env' = ?bare
         and ms = 30000, OF refl]
  have 2: "fst (startScheduledRefreshTimer ?bare ?b) = (False, Some not_ready_reason)"
    by simp
  from b(2)
    startScheduledRefreshTimer_idempotent
      [where st = ?b and env = ?bare and evs = "[]"
         and ?env0.0 = ?bare and d = JUndefined and t = "JBool True" and env' = ?env
         and ms = 30000, OF refl]
  have 3: "fst (startScheduledRefreshTimer ?env ?b) = (True, None)"
    by simp
  from c
    startScheduledRefreshTimer_idempotent
      [where st = ?c and env = ?bare and evs = "[]"
         and ?env0.0 = ?env and d = JUndefined and t = JUndefined and env' = ?env
         and ms = 30000, OF refl]
  have 4: "fst (startScheduledRefreshTimer ?env ?c) = (False, Some no_timer_reason)"
    by simp
  from 1 2 3 4 show ?thesis by blast
qed

text \<open>
  C10 as the specification words it fails when the environment variable goes away. A
  development server starts with neither \<open>dbType\<close> nor \<open>CUBEJS_DB_TYPE\<close>; the variable is
  then set and \<open>startScheduledRefreshTimer\<close> called, which creates the interval and leaves
  \<open>options.dbType\<close> undefined; with the variable removed again, a further call finds the
  instance not ready before it looks at the interval, and returns \<open>[false, reason]\<close>
  although the interval exists.
\<close>

theorem startScheduledRefreshTimer_not_ready_counterexample:
  "scheduledRefreshTimerInterval
     (refresh_run
        \<lparr>CUBEJS_DB_TYPE = None, formatDuration = decimal, longExecutionThreshold = 0\<rparr>
        [Start (Some ''postgres'')]
        (new_refresh_core
           \<lparr>CUBEJS_DB_TYPE = None, formatDuration = decimal, longExecutionThreshold = 0\<rparr>
           JUndefined (JBool True))) \<noteq> None \<and>
   fst (startScheduledRefreshTimer
          \<lparr>CUBEJS_DB_TYPE = None, formatDuration = decimal, longExecutionThreshold = 0\<rparr>
          (refresh_run
             \<lparr>CUBEJS_DB_TYPE = None, formatDuration = decimal, longExecutionThreshold = 0\<rparr>
             [Start (Some ''postgres'')]
             (new_refresh_core
                \<lparr>CUBEJS_DB_TYPE = None, formatDuration = decimal, longExecutionThreshold = 0\<rparr>
                JUndefined (JBool True))))
     = (False, Some not_ready_reason) \<and>
   fst (startScheduledRefreshTimer
          \<lparr>CUBEJS_DB_TYPE = None, formatDuration = decimal, longExecutionThreshold = 0\<rparr>
          (refresh_run
             \<lparr>CUBEJS_DB_TYPE = None, formatDuration = decimal, longExecutionThreshold = 0\<rparr>
             [Start (Some ''postgres'')]
             (new_refresh_core
                \<lparr>CUBEJS_DB_TYPE = None, formatDuration = decimal, longExecutionThreshold = 0\<rparr>
                JUndefined (JBool True))))
     \<noteq> (True, None)"
  by (simp add: refresh_defs)


end
